theory Spec2Isabelle
  imports Complex_Main "HOL-Library.Word" "HOL-Library.Log_Nat"
begin

section \<open>Data model\<close>

text \<open>
  The pipeline of \<^verbatim>\<open>encoder_main_lib.cc\<close> and \<^verbatim>\<open>decoder_main_lib.cc\<close> moves two kinds of
  values: 16-bit PCM samples (\<^verbatim>\<open>int16_t\<close>) and encoded feature values (\<^verbatim>\<open>float\<close>).
  The pipeline never computes on a feature value, so the feature type is a type
  variable \<open>'f\<close>.  Paths are strings.
\<close>

type_synonym int16 = "16 word"

text \<open>
  Everything the C++ can do other than return: arithmetic on \<^verbatim>\<open>int\<close> that leaves the
  32-bit range and division by zero are undefined behaviour, and so is the conversion
  to \<^verbatim>\<open>int\<close> of a \<^verbatim>\<open>float\<close> that is not finite or not in the range of \<^verbatim>\<open>int\<close>;
  \<^verbatim>\<open>vector::at\<close> throws \<^verbatim>\<open>std::out_of_range\<close>; a span that extends beyond the storage of
  its vector is read out of bounds by whoever consumes it; the \<^verbatim>\<open>cnpy\<close> operations
  throw.
\<close>

datatype fault =
  SignedOverflow | DivisionByZero | FloatToIntOutOfRange | OutOfRange | SpanPastEnd
| ContainerException

text \<open>
  A function of the pipeline either does not return (\<open>None\<close>), or leaves by a fault,
  or returns a value.
\<close>

type_synonym 'a outcome = "(fault + 'a) option"

text \<open>
  The calls that reach outside the process, in the order in which a run makes them:
  the construction of a codec engine (\<^verbatim>\<open>LyraEncoder::Create\<close>, \<^verbatim>\<open>LyraDecoder::Create\<close>)
  and the four container operations.
\<close>

datatype event = EngineCreate | AudioRead | AudioWrite | FeatureLoad | FeatureSave

text \<open>The constants of \<^verbatim>\<open>lyra_config.h\<close>, which the two files use but do not define.\<close>

record lyra_config =
  kNumFeatures :: int
  kNumFramesPerPacket :: int
  kBitrate :: int
  kNumChannels :: int
  GetNumSamplesPerHop :: "int \<Rightarrow> int"

text \<open>
  The class \<^verbatim>\<open>LyraEncoder\<close>, as far as \<^verbatim>\<open>EncodeWav\<close> uses it.  An encoder object is a
  value of type \<open>'e\<close>; a method that changes the object returns the new one.
  \<^verbatim>\<open>Create\<close> returns \<^verbatim>\<open>nullptr\<close> (\<open>None\<close>) or an encoder.
\<close>

record ('e, 'f) LyraEncoder =
  LyraEncoder_Create :: "int \<Rightarrow> int \<Rightarrow> int \<Rightarrow> bool \<Rightarrow> string \<Rightarrow> 'e option"
  LyraEncoder_frame_rate :: "'e \<Rightarrow> int"
  LyraEncoder_EncodeRaw :: "'e \<Rightarrow> int16 list \<Rightarrow> 'f list option \<times> 'e"

text \<open>The class \<^verbatim>\<open>LyraDecoder\<close>, as far as the decoder library uses it.\<close>

record ('d, 'f) LyraDecoder =
  LyraDecoder_Create :: "int \<Rightarrow> int \<Rightarrow> int \<Rightarrow> string \<Rightarrow> 'd option"
  LyraDecoder_sample_rate_hz :: "'d \<Rightarrow> int"
  LyraDecoder_num_channels :: "'d \<Rightarrow> int"
  LyraDecoder_bitrate :: "'d \<Rightarrow> int"
  LyraDecoder_frame_rate :: "'d \<Rightarrow> int"
  LyraDecoder_SetEncodedFeatures :: "'d \<Rightarrow> 'f list \<Rightarrow> bool \<times> 'd"
  LyraDecoder_DecodeSamples :: "'d \<Rightarrow> int \<Rightarrow> int16 list option \<times> 'd"

text \<open>
  The container collaborators of \<^verbatim>\<open>wav_util.h\<close> and \<^verbatim>\<open>cnpy.h\<close>.  Reading a wav file gives
  an error status (\<open>Inl\<close>) or the samples with their channel count and rate; writing
  one gives whether the status is ok.  The two \<^verbatim>\<open>cnpy\<close> operations report errors by
  throwing: \<open>None\<close>, respectively \<open>False\<close>.
\<close>

record ReadWavResult =
  ReadWavResult_samples :: "int16 list"
  ReadWavResult_num_channels :: int
  ReadWavResult_sample_rate_hz :: int

record 'f container_io =
  Read16BitWavFileToVector :: "string \<Rightarrow> string + ReadWavResult"
  Write16BitWavFileFromVector :: "string \<Rightarrow> int \<Rightarrow> int \<Rightarrow> int16 list \<Rightarrow> bool"
  npz_load :: "string \<Rightarrow> string \<Rightarrow> 'f list option"
  npz_save :: "string \<Rightarrow> string \<Rightarrow> 'f list \<Rightarrow> int list \<Rightarrow> string \<Rightarrow> bool"

section \<open>Arithmetic on \<^verbatim>\<open>int\<close>\<close>

definition INT_MAX :: int where
  "INT_MAX = 2147483647"

definition INT_MIN :: int where
  "INT_MIN = - 2147483648"

definition int_add :: "int \<Rightarrow> int \<Rightarrow> fault + int" where
  "int_add a b =
     (if INT_MIN \<le> a + b \<and> a + b \<le> INT_MAX then Inr (a + b) else Inl SignedOverflow)"

definition int_mul :: "int \<Rightarrow> int \<Rightarrow> fault + int" where
  "int_mul a b =
     (if INT_MIN \<le> a * b \<and> a * b \<le> INT_MAX then Inr (a * b) else Inl SignedOverflow)"

text \<open>Division truncates towards zero; \<^verbatim>\<open>INT_MIN / -1\<close> overflows.\<close>

definition int_div :: "int \<Rightarrow> int \<Rightarrow> fault + int" where
  "int_div a b =
     (if b = 0 then Inl DivisionByZero
      else if a = INT_MIN \<and> b = - 1 then Inl SignedOverflow
      else Inr (sgn a * sgn b * (\<bar>a\<bar> div \<bar>b\<bar>)))"

section \<open>Arithmetic on \<^verbatim>\<open>float\<close>\<close>

text \<open>
  \<^verbatim>\<open>PacketSize\<close> computes on \<^verbatim>\<open>float\<close>, taken to be IEEE 754 binary32 with every
  operation rounded to nearest, ties to even.  A finite value is the rational it
  denotes.  The signs of zero and of infinity are left out: they change neither
  which results are finite nor the value of a finite result.

  \<open>ilog2 x\<close> is the exponent of the binade of \<open>x\<close>, that is \<open>2 powi ilog2 x \<le> \<bar>x\<bar> <
  2 powi (ilog2 x + 1)\<close>.  Rounding keeps 24 significant bits, with the spacing of the
  subnormal numbers below \<open>2 powi (- 126)\<close>, and overflows to infinity from
  \<open>2 ^ 128\<close> on.
\<close>

datatype float = Finite rat | Infinity | NaN

definition ilog2 :: "rat \<Rightarrow> int" where
  "ilog2 x =
     (case quotient_of \<bar>x\<bar> of
        (p, q) \<Rightarrow> let d = bitlen p - bitlen q in if 2 powi d \<le> \<bar>x\<bar> then d else d - 1)"

definition round_even :: "rat \<Rightarrow> int" where
  "round_even y =
     (let n = \<lfloor>y\<rfloor>; frac = y - of_int n
      in if frac < 1 / 2 then n
         else if 1 / 2 < frac then n + 1
         else if even n then n else n + 1)"

definition float_round :: "rat \<Rightarrow> float" where
  "float_round x =
     (if x = 0 then Finite 0
      else
        let ulp = 2 powi (max (ilog2 x) (- 126) - 23);
            r = of_int (round_even (x / ulp)) * ulp
        in if 2 ^ 128 \<le> \<bar>r\<bar> then Infinity else Finite r)"

text \<open>
  Conversion from \<^verbatim>\<open>int\<close>, division, multiplication, \<^verbatim>\<open>std::ceil\<close> and the conversion
  back to \<^verbatim>\<open>int\<close>, which truncates.
\<close>

definition float_of_int :: "int \<Rightarrow> float" where
  "float_of_int i = float_round (of_int i)"

fun float_div :: "float \<Rightarrow> float \<Rightarrow> float" where
  "float_div NaN y = NaN"
| "float_div x NaN = NaN"
| "float_div Infinity Infinity = NaN"
| "float_div Infinity (Finite b) = Infinity"
| "float_div (Finite a) Infinity = Finite 0"
| "float_div (Finite a) (Finite b) =
     (if b = 0 then (if a = 0 then NaN else Infinity) else float_round (a / b))"

fun float_mul :: "float \<Rightarrow> float \<Rightarrow> float" where
  "float_mul NaN y = NaN"
| "float_mul x NaN = NaN"
| "float_mul Infinity Infinity = Infinity"
| "float_mul Infinity (Finite b) = (if b = 0 then NaN else Infinity)"
| "float_mul (Finite a) Infinity = (if a = 0 then NaN else Infinity)"
| "float_mul (Finite a) (Finite b) = float_round (a * b)"

fun float_ceil :: "float \<Rightarrow> float" where
  "float_ceil (Finite a) = Finite (of_int \<lceil>a\<rceil>)"
| "float_ceil x = x"

fun float_to_int :: "float \<Rightarrow> fault + int" where
  "float_to_int (Finite a) =
     (let t = (if 0 \<le> a then \<lfloor>a\<rfloor> else \<lceil>a\<rceil>)
      in if INT_MIN \<le> t \<and> t \<le> INT_MAX then Inr t else Inl FloatToIntOutOfRange)"
| "float_to_int x = Inl FloatToIntOutOfRange"

section \<open>The encoder pipeline\<close>

text \<open>
  \<^verbatim>\<open>kNumFramesPerPacket * sample_rate_hz / encoder->frame_rate()\<close>, evaluated left to
  right on \<^verbatim>\<open>int\<close>.
\<close>

definition EncodeWav_num_samples_per_packet :: "lyra_config \<Rightarrow> int \<Rightarrow> int \<Rightarrow> fault + int" where
  "EncodeWav_num_samples_per_packet cfg sample_rate_hz frame_rate =
     (case int_mul (kNumFramesPerPacket cfg) sample_rate_hz of
        Inl f \<Rightarrow> Inl f
      | Inr p \<Rightarrow> int_div p frame_rate)"

text \<open>
  The \<^verbatim>\<open>for\<close> loop of \<^verbatim>\<open>EncodeWav\<close>.  The result is \<open>None\<close> when the loop does not
  return, \<open>Some (Inl f)\<close> when it leaves by a fault, and otherwise the returned
  flag with the accumulator and the encoder as the loop left them.

  The condition compares the \<^verbatim>\<open>int\<close> sum with a \<^verbatim>\<open>size_t\<close>: a negative sum converts to a
  value above every vector size, so the condition is false.  \<^verbatim>\<open>at\<close> throws when the
  index is not below the size.
\<close>

partial_function (option) EncodeWav_loop ::
  "('e \<Rightarrow> int16 list \<Rightarrow> 'f list option \<times> 'e) \<Rightarrow> int \<Rightarrow> int16 list \<Rightarrow> int \<Rightarrow> 'e \<Rightarrow> 'f list
     \<Rightarrow> (fault + bool \<times> 'f list \<times> 'e) option"
where
  "EncodeWav_loop encode_raw num_samples_per_packet processed_data wav_iterator encoder
       encoded_raw_features =
     (case int_add wav_iterator num_samples_per_packet of
        Inl f \<Rightarrow> Some (Inl f)
      | Inr next_iterator \<Rightarrow>
          if \<not> (0 \<le> next_iterator \<and> next_iterator \<le> int (length processed_data))
          then Some (Inr (True, encoded_raw_features, encoder))
          else if \<not> (0 \<le> wav_iterator \<and> wav_iterator < int (length processed_data))
          then Some (Inl OutOfRange)
          else
            (case encode_raw encoder
                    (take (nat num_samples_per_packet)
                       (drop (nat wav_iterator) processed_data)) of
               (None, encoder') \<Rightarrow> Some (Inr (False, encoded_raw_features, encoder'))
             | (Some encoded, encoder') \<Rightarrow>
                 EncodeWav_loop encode_raw num_samples_per_packet processed_data
                   next_iterator encoder' (encoded_raw_features @ encoded)))"

text \<open>
  \<^verbatim>\<open>EncodeWav\<close>.  \<open>Process\<close> is \<^verbatim>\<open>NoOpPreprocessor::Process\<close>, which is not part of the
  two files.  The encoder is local to the function, so only the flag and the
  accumulator come back.
\<close>

definition EncodeWav_processed_data ::
  "(int16 list \<Rightarrow> int \<Rightarrow> int16 list) \<Rightarrow> int16 list \<Rightarrow> int \<Rightarrow> bool \<Rightarrow> int16 list" where
  "EncodeWav_processed_data Process wav_data sample_rate_hz enable_preprocessing =
     (if enable_preprocessing then Process wav_data sample_rate_hz else wav_data)"

definition EncodeWav ::
  "lyra_config \<Rightarrow> ('e, 'f) LyraEncoder \<Rightarrow> (int16 list \<Rightarrow> int \<Rightarrow> int16 list) \<Rightarrow>
   int16 list \<Rightarrow> int \<Rightarrow> int \<Rightarrow> bool \<Rightarrow> bool \<Rightarrow> string \<Rightarrow> 'f list \<Rightarrow>
   event list \<times> (bool \<times> 'f list) outcome" where
  "EncodeWav cfg api Process wav_data num_channels sample_rate_hz enable_preprocessing enable_dtx
       model_path encoded_raw_features =
     (case LyraEncoder_Create api sample_rate_hz num_channels (kBitrate cfg) enable_dtx model_path of
        None \<Rightarrow> ([EngineCreate], Some (Inr (False, encoded_raw_features)))
      | Some encoder \<Rightarrow>
          (case EncodeWav_num_samples_per_packet cfg sample_rate_hz
                  (LyraEncoder_frame_rate api encoder) of
             Inl f \<Rightarrow> ([EngineCreate], Some (Inl f))
           | Inr num_samples_per_packet \<Rightarrow>
               (case EncodeWav_loop (LyraEncoder_EncodeRaw api) num_samples_per_packet
                       (EncodeWav_processed_data Process wav_data sample_rate_hz
                          enable_preprocessing)
                       0 encoder encoded_raw_features of
                  None \<Rightarrow> ([EngineCreate], None)
                | Some (Inl f) \<Rightarrow> ([EngineCreate], Some (Inl f))
                | Some (Inr (ok, features, encoder')) \<Rightarrow>
                    ([EngineCreate], Some (Inr (ok, features))))))"

text \<open>
  \<^verbatim>\<open>encoded_raw_features.size() / kNumFeatures\<close> in \<^verbatim>\<open>EncodeFile\<close> divides a \<^verbatim>\<open>size_t\<close>:
  the \<^verbatim>\<open>int\<close> constant converts to a 64-bit unsigned value first.
\<close>

definition EncodeFile_num_frames :: "lyra_config \<Rightarrow> 'f list \<Rightarrow> fault + int" where
  "EncodeFile_num_frames cfg encoded_raw_features =
     (if kNumFeatures cfg = 0 then Inl DivisionByZero
      else Inr (int (length encoded_raw_features) div (kNumFeatures cfg mod 2 ^ 64)))"

text \<open>\<^verbatim>\<open>EncodeFile\<close>: the events of the run and whether it returned \<^verbatim>\<open>true\<close>.\<close>

definition EncodeFile ::
  "lyra_config \<Rightarrow> ('e, 'f) LyraEncoder \<Rightarrow> (int16 list \<Rightarrow> int \<Rightarrow> int16 list) \<Rightarrow>
   'f container_io \<Rightarrow> string \<Rightarrow> string \<Rightarrow> bool \<Rightarrow> bool \<Rightarrow> string \<Rightarrow>
   event list \<times> bool outcome" where
  "EncodeFile cfg api Process io wav_path output_path enable_preprocessing enable_dtx
       model_path =
     (case Read16BitWavFileToVector io wav_path of
        Inl status \<Rightarrow> ([AudioRead], Some (Inr False))
      | Inr read_wav_result \<Rightarrow>
          (case EncodeWav cfg api Process (ReadWavResult_samples read_wav_result)
                  (ReadWavResult_num_channels read_wav_result)
                  (ReadWavResult_sample_rate_hz read_wav_result)
                  enable_preprocessing enable_dtx model_path [] of
             (evs, None) \<Rightarrow> (AudioRead # evs, None)
           | (evs, Some (Inl f)) \<Rightarrow> (AudioRead # evs, Some (Inl f))
           | (evs, Some (Inr (False, encoded_raw_features))) \<Rightarrow>
               (AudioRead # evs, Some (Inr False))
           | (evs, Some (Inr (True, encoded_raw_features))) \<Rightarrow>
               (case EncodeFile_num_frames cfg encoded_raw_features of
                  Inl f \<Rightarrow> (AudioRead # evs, Some (Inl f))
                | Inr num_frames \<Rightarrow>
                    if npz_save io output_path ''features'' encoded_raw_features
                         [num_frames, kNumFeatures cfg mod 2 ^ 64] ''w''
                    then (AudioRead # evs @ [FeatureSave], Some (Inr True))
                    else (AudioRead # evs @ [FeatureSave], Some (Inl ContainerException)))))"

section \<open>The decoder pipeline\<close>

text \<open>
  \<^verbatim>\<open>PacketSize\<close>: the bit rate is converted to \<^verbatim>\<open>float\<close>, divided by the frame rate,
  multiplied by \<^verbatim>\<open>kNumFramesPerPacket\<close> and divided by \<^verbatim>\<open>CHAR_BIT\<close>, each \<^verbatim>\<open>int\<close> operand
  being converted to \<^verbatim>\<open>float\<close> first.
\<close>

definition CHAR_BIT :: int where
  "CHAR_BIT = 8"

definition PacketSize_bytes_per_packet ::
  "lyra_config \<Rightarrow> ('d, 'f) LyraDecoder \<Rightarrow> 'd \<Rightarrow> float" where
  "PacketSize_bytes_per_packet cfg api decoder =
     (let bits_per_packet =
            float_mul
              (float_div (float_of_int (LyraDecoder_bitrate api decoder))
                 (float_of_int (LyraDecoder_frame_rate api decoder)))
              (float_of_int (kNumFramesPerPacket cfg))
      in float_div bits_per_packet (float_of_int CHAR_BIT))"

definition PacketSize :: "lyra_config \<Rightarrow> ('d, 'f) LyraDecoder \<Rightarrow> 'd \<Rightarrow> fault + int" where
  "PacketSize cfg api decoder =
     float_to_int (float_ceil (PacketSize_bytes_per_packet cfg api decoder))"

text \<open>\<^verbatim>\<open>kNumFramesPerPacket * GetNumSamplesPerHop(decoder->sample_rate_hz())\<close>.\<close>

definition DecodeFeatures_num_samples_per_packet :: "lyra_config \<Rightarrow> int \<Rightarrow> fault + int" where
  "DecodeFeatures_num_samples_per_packet cfg sample_rate_hz =
     int_mul (kNumFramesPerPacket cfg) (GetNumSamplesPerHop cfg sample_rate_hz)"

text \<open>
  The \<^verbatim>\<open>for\<close> loop of \<^verbatim>\<open>DecodeFeatures\<close>.  The condition compares the index with the
  size only; the span handed to the decoder starts at the index and always has
  \<^verbatim>\<open>kNumFeatures\<close> elements (a negative length converts to a huge \<^verbatim>\<open>size_t\<close>), so it
  extends beyond the vector when fewer than \<^verbatim>\<open>kNumFeatures\<close> values remain.
\<close>

partial_function (option) DecodeFeatures_loop ::
  "int \<Rightarrow> ('d \<Rightarrow> 'f list \<Rightarrow> bool \<times> 'd) \<Rightarrow> ('d \<Rightarrow> int \<Rightarrow> int16 list option \<times> 'd) \<Rightarrow> int \<Rightarrow>
   'f list \<Rightarrow> int \<Rightarrow> 'd \<Rightarrow> int16 list \<Rightarrow> (fault + bool \<times> int16 list \<times> 'd) option"
where
  "DecodeFeatures_loop num_features set_encoded_features decode_samples
       num_samples_per_packet features encoded_index decoder decoded_audio =
     (if \<not> (0 \<le> encoded_index \<and> encoded_index < int (length features))
      then Some (Inr (True, decoded_audio, decoder))
      else if num_features < 0 \<or> int (length features) < encoded_index + num_features
      then Some (Inl SpanPastEnd)
      else
        (case set_encoded_features decoder
                (take (nat num_features) (drop (nat encoded_index) features)) of
           (accepted, decoder') \<Rightarrow>
             if \<not> accepted then Some (Inr (False, decoded_audio, decoder'))
             else
               (case decode_samples decoder' num_samples_per_packet of
                  (None, decoder'') \<Rightarrow> Some (Inr (False, decoded_audio, decoder''))
                | (Some decoded, decoder'') \<Rightarrow>
                    (case int_add encoded_index num_features of
                       Inl f \<Rightarrow> Some (Inl f)
                     | Inr next_index \<Rightarrow>
                         DecodeFeatures_loop num_features set_encoded_features
                           decode_samples num_samples_per_packet features next_index
                           decoder'' (decoded_audio @ decoded)))))"

text \<open>
  \<^verbatim>\<open>DecodeFeatures\<close>.  The decoder belongs to the caller, so it comes back with the
  flag and the accumulator.
\<close>

definition DecodeFeatures ::
  "lyra_config \<Rightarrow> ('d, 'f) LyraDecoder \<Rightarrow> 'f list \<Rightarrow> 'r \<Rightarrow> 'r \<Rightarrow> 'd \<Rightarrow> int16 list \<Rightarrow>
   (bool \<times> int16 list \<times> 'd) outcome" where
  "DecodeFeatures cfg api features packet_loss_rate average_burst_length decoder
       decoded_audio =
     (case DecodeFeatures_num_samples_per_packet cfg
             (LyraDecoder_sample_rate_hz api decoder) of
        Inl f \<Rightarrow> Some (Inl f)
      | Inr num_samples_per_packet \<Rightarrow>
          DecodeFeatures_loop (kNumFeatures cfg) (LyraDecoder_SetEncodedFeatures api)
            (LyraDecoder_DecodeSamples api) num_samples_per_packet features 0 decoder
            decoded_audio)"

text \<open>\<^verbatim>\<open>DecodeFile\<close>: the events of the run and whether it returned \<^verbatim>\<open>true\<close>.\<close>

definition DecodeFile ::
  "lyra_config \<Rightarrow> ('d, 'f) LyraDecoder \<Rightarrow> 'f container_io \<Rightarrow> string \<Rightarrow> string \<Rightarrow> int \<Rightarrow>
   'r \<Rightarrow> 'r \<Rightarrow> string \<Rightarrow> event list \<times> bool outcome" where
  "DecodeFile cfg api io encoded_path output_path sample_rate_hz packet_loss_rate
       average_burst_length model_path =
     (case LyraDecoder_Create api sample_rate_hz (kNumChannels cfg) (kBitrate cfg) model_path of
        None \<Rightarrow> ([EngineCreate], Some (Inr False))
      | Some decoder \<Rightarrow>
          (case npz_load io encoded_path ''features'' of
             None \<Rightarrow> ([EngineCreate, FeatureLoad], Some (Inl ContainerException))
           | Some loaded_features \<Rightarrow>
               (case DecodeFeatures cfg api loaded_features packet_loss_rate
                       average_burst_length decoder [] of
                  None \<Rightarrow> ([EngineCreate, FeatureLoad], None)
                | Some (Inl f) \<Rightarrow> ([EngineCreate, FeatureLoad], Some (Inl f))
                | Some (Inr (False, decoded_audio, decoder')) \<Rightarrow>
                    ([EngineCreate, FeatureLoad], Some (Inr False))
                | Some (Inr (True, decoded_audio, decoder')) \<Rightarrow>
                    ([EngineCreate, FeatureLoad, AudioWrite],
                     Some (Inr (Write16BitWavFileFromVector io output_path
                                  (LyraDecoder_num_channels api decoder')
                                  (LyraDecoder_sample_rate_hz api decoder')
                                  decoded_audio))))))"

section \<open>What the specification says a run does\<close>

text \<open>
  The specification describes both pipelines by the strides they visit: stride \<open>j\<close>
  of width \<open>n\<close> is the \<open>n\<close> values starting at index \<open>j * n\<close>.  \<open>strides n k m xs\<close>
  lists strides \<open>k\<close> up to \<open>m - 1\<close> in order.
\<close>

definition strides :: "nat \<Rightarrow> nat \<Rightarrow> nat \<Rightarrow> 'a list \<Rightarrow> 'a list list" where
  "strides n k m xs = map (\<lambda>j. take n (drop (j * n) xs)) [k..<m]"

text \<open>
  Feeding a list of windows to the engine in order: stop at the first window the
  engine does not encode, keep the packets of the windows before it.
\<close>

fun encode_windows ::
  "('e \<Rightarrow> int16 list \<Rightarrow> 'f list option \<times> 'e) \<Rightarrow> 'e \<Rightarrow> int16 list list \<Rightarrow> bool \<times> 'f list \<times> 'e" where
  "encode_windows encode_raw encoder [] = (True, [], encoder)"
| "encode_windows encode_raw encoder (w # ws) =
     (case encode_raw encoder w of
        (None, encoder') \<Rightarrow> (False, [], encoder')
      | (Some packet, encoder') \<Rightarrow>
          (case encode_windows encode_raw encoder' ws of
             (ok, packets, encoder'') \<Rightarrow> (ok, packet @ packets, encoder'')))"

text \<open>
  Feeding a list of packets to the decoder in order: stop at the first packet that
  is rejected or gives no samples, keep the samples of the packets before it.
\<close>

fun decode_packets ::
  "('d \<Rightarrow> 'f list \<Rightarrow> bool \<times> 'd) \<Rightarrow> ('d \<Rightarrow> int \<Rightarrow> int16 list option \<times> 'd) \<Rightarrow> int \<Rightarrow> 'd \<Rightarrow>
   'f list list \<Rightarrow> bool \<times> int16 list \<times> 'd" where
  "decode_packets set_encoded_features decode_samples count decoder [] = (True, [], decoder)"
| "decode_packets set_encoded_features decode_samples count decoder (p # ps) =
     (case set_encoded_features decoder p of
        (accepted, decoder') \<Rightarrow>
          if \<not> accepted then (False, [], decoder')
          else
            (case decode_samples decoder' count of
               (None, decoder'') \<Rightarrow> (False, [], decoder'')
             | (Some decoded, decoder'') \<Rightarrow>
                 (case decode_packets set_encoded_features decode_samples count decoder'' ps of
                    (ok, audio, decoder''') \<Rightarrow> (ok, decoded @ audio, decoder'''))))"

text \<open>The contract of the engine, as the specification states it.\<close>

definition encoder_packets_sized :: "lyra_config \<Rightarrow> ('e, 'f) LyraEncoder \<Rightarrow> bool" where
  "encoder_packets_sized cfg api \<longleftrightarrow>
     (\<forall>e w p e'. LyraEncoder_EncodeRaw api e w = (Some p, e') \<longrightarrow>
        int (length p) = kNumFeatures cfg)"

definition encoder_always_succeeds :: "('e, 'f) LyraEncoder \<Rightarrow> nat \<Rightarrow> bool" where
  "encoder_always_succeeds api n \<longleftrightarrow>
     (\<forall>e w. length w = n \<longrightarrow> fst (LyraEncoder_EncodeRaw api e w) \<noteq> None)"

definition decoder_samples_sized :: "('d, 'f) LyraDecoder \<Rightarrow> int \<Rightarrow> bool" where
  "decoder_samples_sized api count \<longleftrightarrow>
     (\<forall>d decoded d'. LyraDecoder_DecodeSamples api d count = (Some decoded, d') \<longrightarrow>
        int (length decoded) = count)"

definition decoder_always_succeeds :: "('d, 'f) LyraDecoder \<Rightarrow> nat \<Rightarrow> int \<Rightarrow> bool" where
  "decoder_always_succeeds api width count \<longleftrightarrow>
     (\<forall>d p. length p = width \<longrightarrow> fst (LyraDecoder_SetEncodedFeatures api d p)) \<and>
     (\<forall>d. fst (LyraDecoder_DecodeSamples api d count) \<noteq> None)"

section \<open>Example engines\<close>

text \<open>
  Small engines on which the theorems below are instantiated.  The encoder counts
  the windows it has been given and encodes window number \<open>e\<close> as the two values
  \<open>e\<close> and the length of the window; it can be told to fail at one window.  The
  decoder counts the packets it has decoded and can be told to reject one packet
  or to give no samples for one.
\<close>

definition example_config :: lyra_config where
  "example_config =
     \<lparr>kNumFeatures = 2, kNumFramesPerPacket = 1, kBitrate = 3000, kNumChannels = 1,
      GetNumSamplesPerHop = (\<lambda>rate. rate div 50)\<rparr>"

definition counting_encoder :: "nat option \<Rightarrow> (nat, int) LyraEncoder" where
  "counting_encoder fail_at =
     \<lparr>LyraEncoder_Create = (\<lambda>rate chans bitrate dtx path. Some 0),
      LyraEncoder_frame_rate = (\<lambda>e. 50),
      LyraEncoder_EncodeRaw =
        (\<lambda>e w. (if Some e = fail_at then None else Some [int e, int (length w)], Suc e))\<rparr>"

definition uncreatable_encoder :: "(nat, int) LyraEncoder" where
  "uncreatable_encoder =
     \<lparr>LyraEncoder_Create = (\<lambda>rate chans bitrate dtx path. None),
      LyraEncoder_frame_rate = (\<lambda>e. 50),
      LyraEncoder_EncodeRaw = (\<lambda>e w. (None, e))\<rparr>"

definition counting_decoder :: "nat option \<Rightarrow> nat option \<Rightarrow> (nat, int) LyraDecoder" where
  "counting_decoder reject_at silent_at =
     \<lparr>LyraDecoder_Create = (\<lambda>rate chans bitrate path. Some 0),
      LyraDecoder_sample_rate_hz = (\<lambda>d. 150),
      LyraDecoder_num_channels = (\<lambda>d. 1),
      LyraDecoder_bitrate = (\<lambda>d. 3000),
      LyraDecoder_frame_rate = (\<lambda>d. 50),
      LyraDecoder_SetEncodedFeatures = (\<lambda>d p. (Some d \<noteq> reject_at, d)),
      LyraDecoder_DecodeSamples =
        (\<lambda>d count. (if Some d = silent_at then None
                     else Some (replicate (nat count) (word_of_nat d)), Suc d))\<rparr>"

definition uncreatable_decoder :: "(nat, int) LyraDecoder" where
  "uncreatable_decoder =
     (counting_decoder None None)\<lparr>LyraDecoder_Create := (\<lambda>rate chans bitrate path. None)\<rparr>"

definition rated_decoder :: "int \<Rightarrow> int \<Rightarrow> (nat, int) LyraDecoder" where
  "rated_decoder bitrate frame_rate =
     (counting_decoder None None)
       \<lparr>LyraDecoder_bitrate := (\<lambda>d. bitrate), LyraDecoder_frame_rate := (\<lambda>d. frame_rate)\<rparr>"

definition zero_rate_encoder :: "(nat, int) LyraEncoder" where
  "zero_rate_encoder = (counting_encoder None)\<lparr>LyraEncoder_frame_rate := (\<lambda>e. 0)\<rparr>"

definition no_preprocessing :: "int16 list \<Rightarrow> int \<Rightarrow> int16 list" where
  "no_preprocessing wav_data rate = wav_data"

definition example_io :: "int container_io" where
  "example_io =
     \<lparr>Read16BitWavFileToVector =
        (\<lambda>path. Inr \<lparr>ReadWavResult_samples = [1, 2, 3, 4, 5, 6, 7],
                      ReadWavResult_num_channels = 1,
                      ReadWavResult_sample_rate_hz = 150\<rparr>),
      Write16BitWavFileFromVector = (\<lambda>path chans rate audio. True),
      npz_load = (\<lambda>path key. Some [0, 3, 1, 3]),
      npz_save = (\<lambda>path key data shape mode. True)\<rparr>"

section \<open>The loops follow the strides\<close>

lemma int_add_nat:
  "int (a + b) \<le> INT_MAX \<Longrightarrow> int_add (int a) (int b) = Inr (int (a + b))"
proof -
  assume "int (a + b) \<le> INT_MAX"
  moreover have "INT_MIN \<le> int a + int b" by (simp add: INT_MIN_def)
  ultimately show ?thesis by (simp add: int_add_def)
qed

lemma strides_Cons:
  "k < m \<Longrightarrow> strides n k m xs = take n (drop (k * n) xs) # strides n (Suc k) m xs"
  by (simp add: strides_def upt_conv_Cons)

lemma strides_empty [simp]: "strides n m m xs = []"
  by (simp add: strides_def)

lemma strides_snoc:
  "k \<le> m \<Longrightarrow> strides n k (Suc m) xs = strides n k m xs @ [take n (drop (m * n) xs)]"
  by (simp add: strides_def)

lemma length_strides [simp]: "length (strides n k m xs) = m - k"
  by (simp add: strides_def)

lemma strides_window_length:
  assumes "m * n \<le> length xs" and "w \<in> set (strides n k m xs)"
  shows "length w = n"
proof -
  from assms(2) obtain j where j: "j < m" and w: "w = take n (drop (j * n) xs)"
    by (auto simp: strides_def)
  have "Suc j * n \<le> m * n" using j by (intro mult_le_mono1) simp
  with assms(1) have "j * n + n \<le> length xs" by (simp add: add.commute)
  then show ?thesis by (simp add: w)
qed

text \<open>One turn of the encoder loop at a window that fits.\<close>

lemma EncodeWav_loop_step:
  assumes le: "k * n + n \<le> length xs" and n: "0 < n" and bound: "int (length xs) \<le> INT_MAX"
  shows "EncodeWav_loop enc (int n) xs (int (k * n)) e feats =
    (case enc e (take n (drop (k * n) xs)) of
       (None, e') \<Rightarrow> Some (Inr (False, feats, e'))
     | (Some p, e') \<Rightarrow> EncodeWav_loop enc (int n) xs (int (k * n + n)) e' (feats @ p))"
proof -
  have "int (k * n + n) \<le> int (length xs)" using le by (simp only: of_nat_le_iff)
  then have "int (k * n + n) \<le> INT_MAX" using bound by (rule order_trans)
  then have inr: "int_add (int (k * n)) (int n) = Inr (int (k * n + n))"
    by (rule int_add_nat)
  have lt: "k * n < length xs" using le n by simp
  have c1: "0 \<le> int (k * n + n) \<and> int (k * n + n) \<le> int (length xs)"
    using le by (simp only: of_nat_le_iff of_nat_0_le_iff simp_thms)
  have c2: "0 \<le> int (k * n) \<and> int (k * n) < int (length xs)"
    using lt by (simp only: of_nat_less_iff of_nat_0_le_iff simp_thms)
  show ?thesis
    apply (subst EncodeWav_loop.simps)
    apply (simp only: inr sum.case c1 c2 simp_thms if_False nat_int)
    done
qed

text \<open>The loop leaves with \<^verbatim>\<open>true\<close> at the first index where no whole window is left.\<close>

lemma EncodeWav_loop_exit:
  assumes gt: "length xs < k * n + n" and bound: "int (k * n + n) \<le> INT_MAX"
  shows "EncodeWav_loop enc (int n) xs (int (k * n)) e feats = Some (Inr (True, feats, e))"
proof -
  have inr: "int_add (int (k * n)) (int n) = Inr (int (k * n + n))"
    using bound by (rule int_add_nat)
  have "\<not> k * n + n \<le> length xs" using gt by simp
  then have c0: "\<not> (0 \<le> int (k * n + n) \<and> int (k * n + n) \<le> int (length xs))"
    by (simp only: of_nat_le_iff simp_thms)
  show ?thesis
    apply (subst EncodeWav_loop.simps)
    apply (simp only: inr sum.case c0 simp_thms if_True)
    done
qed

lemma EncodeWav_loop_unroll:
  assumes n: "0 < n" and bound: "int (length xs) \<le> INT_MAX" and j: "j * n \<le> length xs"
  shows "k \<le> j \<Longrightarrow>
    EncodeWav_loop enc (int n) xs (int (k * n)) e feats =
      (case encode_windows enc e (strides n k j xs) of
         (ok, ps, e') \<Rightarrow>
           if ok then EncodeWav_loop enc (int n) xs (int (j * n)) e' (feats @ ps)
           else Some (Inr (False, feats @ ps, e')))"
proof (induction "j - k" arbitrary: k e feats)
  case 0
  then have "k = j" by simp
  then show ?case by simp
next
  case (Suc d)
  then have kj: "k < j" by simp
  have "Suc k * n \<le> j * n" using kj by (intro mult_le_mono1) simp
  then have "k * n + n \<le> j * n" by (simp add: add.commute)
  then have le: "k * n + n \<le> length xs" using j by (rule order_trans)
  have sk: "Suc k * n = k * n + n" by simp
  have IH: "\<And>e feats. EncodeWav_loop enc (int n) xs (int (k * n + n)) e feats =
      (case encode_windows enc e (strides n (Suc k) j xs) of
         (ok, ps, e') \<Rightarrow>
           if ok then EncodeWav_loop enc (int n) xs (int (j * n)) e' (feats @ ps)
           else Some (Inr (False, feats @ ps, e')))"
    using Suc.hyps(1)[of "Suc k"] Suc.hyps(2) kj unfolding sk by simp
  show ?case
    unfolding EncodeWav_loop_step[OF le n bound] strides_Cons[OF kj]
    by (simp add: IH split: prod.splits option.splits del: of_nat_add of_nat_mult)
qed

lemma DecodeFeatures_loop_step:
  assumes le: "k * K + K \<le> length fs" and K: "0 < K" and bound: "int (length fs) \<le> INT_MAX"
  shows "DecodeFeatures_loop (int K) S D count fs (int (k * K)) d audio =
    (case S d (take K (drop (k * K) fs)) of
       (accepted, d') \<Rightarrow>
         if \<not> accepted then Some (Inr (False, audio, d'))
         else
           (case D d' count of
              (None, d'') \<Rightarrow> Some (Inr (False, audio, d''))
            | (Some decoded, d'') \<Rightarrow>
                DecodeFeatures_loop (int K) S D count fs (int (k * K + K)) d''
                  (audio @ decoded)))"
proof -
  have "int (k * K + K) \<le> int (length fs)" using le by (simp only: of_nat_le_iff)
  then have "int (k * K + K) \<le> INT_MAX" using bound by (rule order_trans)
  then have inr: "int_add (int (k * K)) (int K) = Inr (int (k * K + K))"
    by (rule int_add_nat)
  have lt: "k * K < length fs" using le K by simp
  have c1: "0 \<le> int (k * K) \<and> int (k * K) < int (length fs)"
    using lt by (simp only: of_nat_less_iff of_nat_0_le_iff simp_thms)
  have "\<not> length fs < k * K + K" using le by simp
  then have "\<not> int (length fs) < int (k * K + K)"
    by (simp only: of_nat_less_iff simp_thms)
  then have c2: "\<not> (int K < 0 \<or> int (length fs) < int (k * K) + int K)"
    by (simp only: of_nat_add) simp
  show ?thesis
    apply (subst DecodeFeatures_loop.simps)
    apply (simp only: inr sum.case c1 c2 simp_thms if_False nat_int)
    done
qed

lemma DecodeFeatures_loop_exit:
  assumes "length fs \<le> k * K"
  shows "DecodeFeatures_loop (int K) S D count fs (int (k * K)) d audio =
           Some (Inr (True, audio, d))"
proof -
  have "\<not> k * K < length fs" using assms by simp
  then have c0: "\<not> (0 \<le> int (k * K) \<and> int (k * K) < int (length fs))"
    by (simp only: of_nat_less_iff simp_thms)
  show ?thesis
    apply (subst DecodeFeatures_loop.simps)
    apply (simp only: c0 simp_thms if_True)
    done
qed

lemma DecodeFeatures_loop_past_end:
  assumes lt: "k * K < length fs" and gt: "length fs < k * K + K"
  shows "DecodeFeatures_loop (int K) S D count fs (int (k * K)) d audio =
           Some (Inl SpanPastEnd)"
proof -
  have c1: "0 \<le> int (k * K) \<and> int (k * K) < int (length fs)"
    using lt by (simp only: of_nat_less_iff of_nat_0_le_iff simp_thms)
  have "int (length fs) < int (k * K + K)" using gt by (simp only: of_nat_less_iff)
  then have c2: "int K < 0 \<or> int (length fs) < int (k * K) + int K"
    by (simp only: of_nat_add) simp
  show ?thesis
    apply (subst DecodeFeatures_loop.simps)
    apply (simp only: c1 c2 simp_thms if_True if_False)
    done
qed

lemma DecodeFeatures_loop_unroll:
  assumes K: "0 < K" and bound: "int (length fs) \<le> INT_MAX" and j: "j * K \<le> length fs"
  shows "k \<le> j \<Longrightarrow>
    DecodeFeatures_loop (int K) S D count fs (int (k * K)) d audio =
      (case decode_packets S D count d (strides K k j fs) of
         (ok, decoded, d') \<Rightarrow>
           if ok then DecodeFeatures_loop (int K) S D count fs (int (j * K)) d'
                        (audio @ decoded)
           else Some (Inr (False, audio @ decoded, d')))"
proof (induction "j - k" arbitrary: k d audio)
  case 0
  then have "k = j" by simp
  then show ?case by simp
next
  case (Suc x)
  then have kj: "k < j" by simp
  have "Suc k * K \<le> j * K" using kj by (intro mult_le_mono1) simp
  then have "k * K + K \<le> j * K" by (simp add: add.commute)
  then have le: "k * K + K \<le> length fs" using j by (rule order_trans)
  have sk: "Suc k * K = k * K + K" by simp
  have IH: "\<And>d audio. DecodeFeatures_loop (int K) S D count fs (int (k * K + K)) d audio =
      (case decode_packets S D count d (strides K (Suc k) j fs) of
         (ok, decoded, d') \<Rightarrow>
           if ok then DecodeFeatures_loop (int K) S D count fs (int (j * K)) d'
                        (audio @ decoded)
           else Some (Inr (False, audio @ decoded, d')))"
    using Suc.hyps(1)[of "Suc k"] Suc.hyps(2) kj unfolding sk by simp
  show ?case
    unfolding DecodeFeatures_loop_step[OF le K bound] strides_Cons[OF kj]
    by (simp add: IH split: prod.splits option.splits del: of_nat_add of_nat_mult)
qed

lemma decode_packets_succeed:
  assumes "decoder_always_succeeds api K count" and "\<forall>p\<in>set ps. length p = K"
  shows "fst (decode_packets (LyraDecoder_SetEncodedFeatures api)
                (LyraDecoder_DecodeSamples api) count d ps)"
  using assms(2)
proof (induction ps arbitrary: d)
  case Nil
  then show ?case by simp
next
  case (Cons p ps)
  then have "length p = K" by simp
  with assms(1) have acc: "fst (LyraDecoder_SetEncodedFeatures api d p)"
    unfolding decoder_always_succeeds_def by blast
  then obtain d1 where set: "LyraDecoder_SetEncodedFeatures api d p = (True, d1)"
    by (metis prod.collapse)
  from assms(1) obtain decoded d2 where
    dec: "LyraDecoder_DecodeSamples api d1 count = (Some decoded, d2)"
    unfolding decoder_always_succeeds_def by (metis fst_conv not_None_eq prod.collapse)
  have "fst (decode_packets (LyraDecoder_SetEncodedFeatures api)
                (LyraDecoder_DecodeSamples api) count d2 ps)"
    using Cons by simp
  then show ?case by (auto simp: set dec split: prod.splits)
qed

lemma decode_packets_length:
  assumes "decoder_samples_sized api count"
  shows "decode_packets (LyraDecoder_SetEncodedFeatures api) (LyraDecoder_DecodeSamples api)
           count d ps = (True, audio, d') \<Longrightarrow>
         int (length audio) = int (length ps) * count"
proof (induction ps arbitrary: d audio)
  case Nil
  then show ?case by simp
next
  case (Cons p ps)
  from Cons.prems obtain d1 decoded d2 rest where
    dec: "LyraDecoder_DecodeSamples api d1 count = (Some decoded, d2)" and
    rest: "decode_packets (LyraDecoder_SetEncodedFeatures api)
             (LyraDecoder_DecodeSamples api) count d2 ps = (True, rest, d')" and
    audio: "audio = decoded @ rest"
    by (auto split: prod.splits option.splits if_splits)
  have "int (length decoded) = count"
    using assms dec unfolding decoder_samples_sized_def by blast
  moreover have "int (length rest) = int (length ps) * count"
    using Cons.IH[OF rest] .
  ultimately show ?case by (simp add: audio algebra_simps)
qed

lemma EncodeWav_loop_appends:
  assumes "EncodeWav_loop enc n xs i e feats = Some y"
  shows "case y of Inl f \<Rightarrow> True | Inr (ok, res, e') \<Rightarrow> \<exists>new. res = feats @ new"
  by (rule EncodeWav_loop.raw_induct
        [where P = "\<lambda>enc n xs i e feats y.
           case y of Inl f \<Rightarrow> True | Inr (ok, res, e') \<Rightarrow> \<exists>new. res = feats @ new",
         OF _ assms])
     (fastforce split: sum.splits if_splits prod.splits option.splits)

lemma DecodeFeatures_loop_appends:
  assumes "DecodeFeatures_loop K S D count fs i d audio = Some y"
  shows "case y of Inl f \<Rightarrow> True | Inr (ok, res, d') \<Rightarrow> \<exists>new. res = audio @ new"
  by (rule DecodeFeatures_loop.raw_induct
        [where P = "\<lambda>K S D count fs i d audio y.
           case y of Inl f \<Rightarrow> True | Inr (ok, res, d') \<Rightarrow> \<exists>new. res = audio @ new",
         OF _ assms])
     (fastforce split: sum.splits if_splits prod.splits option.splits)


lemma encode_windows_succeed:
  assumes "encoder_always_succeeds api n" and "\<forall>w\<in>set ws. length w = n"
  shows "fst (encode_windows (LyraEncoder_EncodeRaw api) e ws)"
  using assms(2)
proof (induction ws arbitrary: e)
  case Nil
  then show ?case by simp
next
  case (Cons w ws)
  then have "length w = n" by simp
  with assms(1) obtain p e' where enc: "LyraEncoder_EncodeRaw api e w = (Some p, e')"
    unfolding encoder_always_succeeds_def by (metis fst_conv not_None_eq prod.collapse)
  have "fst (encode_windows (LyraEncoder_EncodeRaw api) e' ws)"
    using Cons by simp
  then show ?case by (auto simp: enc split: prod.splits)
qed

lemma encode_windows_length:
  assumes "encoder_packets_sized cfg api"
  shows "encode_windows (LyraEncoder_EncodeRaw api) e ws = (True, ps, e') \<Longrightarrow>
    int (length ps) = int (length ws) * kNumFeatures cfg"
proof (induction ws arbitrary: e ps)
  case Nil
  then show ?case by simp
next
  case (Cons w ws)
  from Cons.prems obtain p e1 qs where
    enc: "LyraEncoder_EncodeRaw api e w = (Some p, e1)" and
    rest: "encode_windows (LyraEncoder_EncodeRaw api) e1 ws = (True, qs, e')" and
    ps: "ps = p @ qs"
    by (auto split: prod.splits option.splits)
  have "int (length p) = kNumFeatures cfg"
    using assms enc unfolding encoder_packets_sized_def by blast
  moreover have "int (length qs) = int (length ws) * kNumFeatures cfg"
    using Cons.IH[OF rest] .
  ultimately show ?case by (simp add: ps algebra_simps)
qed

lemma EncodeWav_unfold:
  assumes "LyraEncoder_Create api sample_rate_hz num_channels (kBitrate cfg) enable_dtx model_path = Some encoder"
    and "EncodeWav_num_samples_per_packet cfg sample_rate_hz (LyraEncoder_frame_rate api encoder) = Inr n"
    and "EncodeWav_loop (LyraEncoder_EncodeRaw api) n
            (EncodeWav_processed_data Process wav_data sample_rate_hz enable_preprocessing)
            0 encoder feats = Some (Inr (ok, res, encoder'))"
  shows "EncodeWav cfg api Process wav_data num_channels sample_rate_hz enable_preprocessing
            enable_dtx model_path feats = ([EngineCreate], Some (Inr (ok, res)))"
  using assms by (simp add: EncodeWav_def)

text \<open>A run over whole windows that the engine all encodes.\<close>

lemma EncodeWav_loop_success:
  assumes len: "length xs = m * n + r" and r: "r < n"
    and range: "int (m * n + n) \<le> INT_MAX"
    and succeeds: "encoder_always_succeeds api n"
  shows "\<exists>packets encoder'.
      encode_windows (LyraEncoder_EncodeRaw api) encoder (strides n 0 m xs) =
        (True, packets, encoder') \<and>
      EncodeWav_loop (LyraEncoder_EncodeRaw api) (int n) xs 0 encoder feats =
        Some (Inr (True, feats @ packets, encoder'))"
proof -
  let ?enc = "LyraEncoder_EncodeRaw api"
  have n: "0 < n" using r by simp
  have mn: "m * n \<le> length xs" using len by simp
  have "length xs \<le> m * n + n" using len r by simp
  then have "int (length xs) \<le> int (m * n + n)" by (simp only: of_nat_le_iff)
  then have bound: "int (length xs) \<le> INT_MAX" using range by (rule order_trans)
  have wl: "\<forall>w \<in> set (strides n 0 m xs). length w = n"
    using strides_window_length[OF mn] by blast
  obtain ok packets encoder' where run:
    "encode_windows ?enc encoder (strides n 0 m xs) = (ok, packets, encoder')"
    by (metis prod.exhaust)
  have "ok" using encode_windows_succeed[OF succeeds wl, of encoder] run by simp
  then have run: "encode_windows ?enc encoder (strides n 0 m xs) = (True, packets, encoder')"
    using run by simp
  have gt: "length xs < m * n + n" using len r by simp
  have "EncodeWav_loop ?enc (int n) xs (int (0 * n)) encoder feats =
      EncodeWav_loop ?enc (int n) xs (int (m * n)) encoder' (feats @ packets)"
    using EncodeWav_loop_unroll[OF n bound mn, of 0 ?enc encoder feats]
    by (simp add: run del: of_nat_mult)
  also have "\<dots> = Some (Inr (True, feats @ packets, encoder'))"
    using gt range by (rule EncodeWav_loop_exit)
  finally have "EncodeWav_loop ?enc (int n) xs 0 encoder feats =
      Some (Inr (True, feats @ packets, encoder'))" by simp
  with run show ?thesis by blast
qed

text \<open>A run that meets a window the engine does not encode.\<close>

lemma EncodeWav_loop_failure:
  assumes n: "0 < n" and fits: "j * n + n \<le> length xs"
    and range: "int (length xs) \<le> INT_MAX"
    and first: "encode_windows enc encoder (strides n 0 j xs) = (True, packets, encoder_j)"
    and fails: "enc encoder_j (take n (drop (j * n) xs)) = (None, encoder_f)"
  shows "EncodeWav_loop enc (int n) xs 0 encoder feats =
           Some (Inr (False, feats @ packets, encoder_f))"
proof -
  have jn: "j * n \<le> length xs" using fits by simp
  have "EncodeWav_loop enc (int n) xs (int (0 * n)) encoder feats =
      EncodeWav_loop enc (int n) xs (int (j * n)) encoder_j (feats @ packets)"
    using EncodeWav_loop_unroll[OF n range jn, of 0 enc encoder feats]
    by (simp add: first del: of_nat_mult)
  also have "\<dots> = Some (Inr (False, feats @ packets, encoder_f))"
    unfolding EncodeWav_loop_step[OF fits n range] by (simp add: fails)
  finally show ?thesis by simp
qed

lemma example_sizes:
  "EncodeWav_num_samples_per_packet example_config 150 50 = Inr (int 3)"
  "DecodeFeatures_num_samples_per_packet example_config 150 = Inr 3"
  by (simp_all add: EncodeWav_num_samples_per_packet_def
        DecodeFeatures_num_samples_per_packet_def example_config_def int_mul_def int_div_def
        INT_MIN_def INT_MAX_def)

lemma counting_encoder_contract:
  "encoder_always_succeeds (counting_encoder None) n"
  "encoder_packets_sized example_config (counting_encoder fail_at)"
  by (auto simp: encoder_always_succeeds_def encoder_packets_sized_def counting_encoder_def
        example_config_def split: if_splits)

lemma DecodeFeatures_unfold:
  assumes "DecodeFeatures_num_samples_per_packet cfg (LyraDecoder_sample_rate_hz api decoder)
             = Inr count"
  shows "DecodeFeatures cfg api features packet_loss_rate average_burst_length decoder
           decoded_audio =
         DecodeFeatures_loop (kNumFeatures cfg) (LyraDecoder_SetEncodedFeatures api)
           (LyraDecoder_DecodeSamples api) count features 0 decoder decoded_audio"
  using assms by (simp add: DecodeFeatures_def)

text \<open>A run over whole packets that the decoder all accepts and decodes.\<close>

lemma DecodeFeatures_loop_success:
  assumes len: "length fs = m * K" and K: "0 < K"
    and range: "int (length fs) \<le> INT_MAX"
    and succeeds: "decoder_always_succeeds api K count"
  shows "\<exists>decoded decoder'.
      decode_packets (LyraDecoder_SetEncodedFeatures api) (LyraDecoder_DecodeSamples api)
        count decoder (strides K 0 m fs) = (True, decoded, decoder') \<and>
      DecodeFeatures_loop (int K) (LyraDecoder_SetEncodedFeatures api)
        (LyraDecoder_DecodeSamples api) count fs 0 decoder audio =
        Some (Inr (True, audio @ decoded, decoder'))"
proof -
  let ?S = "LyraDecoder_SetEncodedFeatures api"
  let ?D = "LyraDecoder_DecodeSamples api"
  have mK: "m * K \<le> length fs" using len by simp
  have pl: "\<forall>p \<in> set (strides K 0 m fs). length p = K"
    using strides_window_length[OF mK] by blast
  obtain ok decoded decoder' where run:
    "decode_packets ?S ?D count decoder (strides K 0 m fs) = (ok, decoded, decoder')"
    by (metis prod.exhaust)
  have "ok" using decode_packets_succeed[OF succeeds pl, of decoder] run by simp
  then have run: "decode_packets ?S ?D count decoder (strides K 0 m fs) = (True, decoded, decoder')"
    using run by simp
  have "DecodeFeatures_loop (int K) ?S ?D count fs (int (0 * K)) decoder audio =
      DecodeFeatures_loop (int K) ?S ?D count fs (int (m * K)) decoder' (audio @ decoded)"
    using DecodeFeatures_loop_unroll[OF K range mK, of 0 ?S ?D count decoder audio]
    by (simp add: run del: of_nat_mult)
  also have "\<dots> = Some (Inr (True, audio @ decoded, decoder'))"
    using len by (intro DecodeFeatures_loop_exit) simp
  finally have "DecodeFeatures_loop (int K) ?S ?D count fs 0 decoder audio =
      Some (Inr (True, audio @ decoded, decoder'))" by simp
  with run show ?thesis by blast
qed

text \<open>A run that meets a packet the decoder rejects or gives no samples for.\<close>

lemma DecodeFeatures_loop_failure:
  assumes K: "0 < K" and fits: "j * K + K \<le> length fs"
    and range: "int (length fs) \<le> INT_MAX"
    and first: "decode_packets S D count decoder (strides K 0 j fs) = (True, decoded, decoder_j)"
    and fails: "S decoder_j (take K (drop (j * K) fs)) = (False, decoder_f) \<or>
                (\<exists>d. S decoder_j (take K (drop (j * K) fs)) = (True, d) \<and>
                     D d count = (None, decoder_f))"
  shows "DecodeFeatures_loop (int K) S D count fs 0 decoder audio =
           Some (Inr (False, audio @ decoded, decoder_f))"
proof -
  have jK: "j * K \<le> length fs" using fits by simp
  have "DecodeFeatures_loop (int K) S D count fs (int (0 * K)) decoder audio =
      DecodeFeatures_loop (int K) S D count fs (int (j * K)) decoder_j (audio @ decoded)"
    using DecodeFeatures_loop_unroll[OF K range jK, of 0 S D count decoder audio]
    by (simp add: first del: of_nat_mult)
  also have "\<dots> = Some (Inr (False, audio @ decoded, decoder_f))"
    unfolding DecodeFeatures_loop_step[OF fits K range] using fails by auto
  finally show ?thesis by simp
qed

text \<open>
  A run over a vector that ends in an incomplete packet: once the whole packets
  are decoded, the loop is entered again and hands out a span beyond the end.
\<close>

lemma DecodeFeatures_loop_ragged:
  assumes len: "length fs = m * K + r" and r: "0 < r" "r < K"
    and range: "int (length fs) \<le> INT_MAX"
    and succeeds: "decoder_always_succeeds api K count"
  shows "DecodeFeatures_loop (int K) (LyraDecoder_SetEncodedFeatures api)
           (LyraDecoder_DecodeSamples api) count fs 0 decoder audio = Some (Inl SpanPastEnd)"
proof -
  let ?S = "LyraDecoder_SetEncodedFeatures api"
  let ?D = "LyraDecoder_DecodeSamples api"
  have K: "0 < K" using r by simp
  have mK: "m * K \<le> length fs" using len by simp
  have pl: "\<forall>p \<in> set (strides K 0 m fs). length p = K"
    using strides_window_length[OF mK] by blast
  obtain ok decoded decoder' where run:
    "decode_packets ?S ?D count decoder (strides K 0 m fs) = (ok, decoded, decoder')"
    by (metis prod.exhaust)
  have "ok" using decode_packets_succeed[OF succeeds pl, of decoder] run by simp
  then have run: "decode_packets ?S ?D count decoder (strides K 0 m fs) = (True, decoded, decoder')"
    using run by simp
  have "DecodeFeatures_loop (int K) ?S ?D count fs (int (0 * K)) decoder audio =
      DecodeFeatures_loop (int K) ?S ?D count fs (int (m * K)) decoder' (audio @ decoded)"
    using DecodeFeatures_loop_unroll[OF K range mK, of 0 ?S ?D count decoder audio]
    by (simp add: run del: of_nat_mult)
  also have "\<dots> = Some (Inl SpanPastEnd)"
    using len r by (intro DecodeFeatures_loop_past_end) simp_all
  finally show ?thesis by simp
qed

lemma counting_decoder_contract:
  "decoder_always_succeeds (counting_decoder None None) K count"
  "0 \<le> count \<Longrightarrow> decoder_samples_sized (counting_decoder reject_at silent_at) count"
  unfolding decoder_always_succeeds_def decoder_samples_sized_def counting_decoder_def
  by (auto split: if_splits)

section \<open>Rounding to single precision\<close>

lemma ilog2_bounds:
  assumes "x \<noteq> 0"
  shows "2 powi (ilog2 x) \<le> \<bar>x\<bar>" and "\<bar>x\<bar> < 2 powi (ilog2 x + 1)"
proof -
  obtain p q where pq: "quotient_of \<bar>x\<bar> = (p, q)" by (cases "quotient_of \<bar>x\<bar>")
  have q: "0 < q" using quotient_of_denom_pos[OF pq] .
  have ax: "\<bar>x\<bar> = of_int p / of_int q" using quotient_of_div[OF pq] .
  have "0 < \<bar>x\<bar>" using assms by simp
  then have p: "0 < p" using ax q by (simp add: zero_less_divide_iff)
  define bp where "bp = bitlen p"
  define bq where "bq = bitlen q"
  define d where "d = bp - bq"
  have bp1: "1 \<le> bp" using p unfolding bp_def by (simp add: bitlen_alt_def)
  have bq1: "1 \<le> bq" using q unfolding bq_def by (simp add: bitlen_alt_def)
  have p_lo: "(2::rat) powi (bp - 1) \<le> of_int p"
  proof -
    have "2 ^ nat (bp - 1) \<le> p" using bitlen_bounds[OF p] unfolding bp_def by simp
    then have "(of_int (2 ^ nat (bp - 1)) :: rat) \<le> of_int p" by (simp only: of_int_le_iff)
    then show ?thesis using bp1 by (simp add: power_int_def)
  qed
  have p_hi: "of_int p < (2::rat) powi bp"
  proof -
    have "p < 2 ^ nat bp" using bitlen_bounds[OF p] unfolding bp_def by simp
    then have "(of_int p :: rat) < of_int (2 ^ nat bp)" by (simp only: of_int_less_iff)
    then show ?thesis using bp1 by (simp add: power_int_def)
  qed
  have q_lo: "(2::rat) powi (bq - 1) \<le> of_int q"
  proof -
    have "2 ^ nat (bq - 1) \<le> q" using bitlen_bounds[OF q] unfolding bq_def by simp
    then have "(of_int (2 ^ nat (bq - 1)) :: rat) \<le> of_int q" by (simp only: of_int_le_iff)
    then show ?thesis using bq1 by (simp add: power_int_def)
  qed
  have q_hi: "of_int q < (2::rat) powi bq"
  proof -
    have "q < 2 ^ nat bq" using bitlen_bounds[OF q] unfolding bq_def by simp
    then have "(of_int q :: rat) < of_int (2 ^ nat bq)" by (simp only: of_int_less_iff)
    then show ?thesis using bq1 by (simp add: power_int_def)
  qed
  have Q: "(0::rat) < of_int q" using q by simp
  have upper: "\<bar>x\<bar> < 2 powi (d + 1)"
  proof -
    have "(2::rat) powi bp = 2 powi (d + 1) * 2 powi (bq - 1)"
      unfolding d_def by (simp flip: power_int_add)
    also have "\<dots> \<le> 2 powi (d + 1) * of_int q"
      using q_lo by (intro mult_left_mono) simp_all
    finally have "of_int p < 2 powi (d + 1) * (of_int q :: rat)"
      using p_hi by simp
    then show ?thesis unfolding ax using Q by (simp add: pos_divide_less_eq)
  qed
  have lower: "2 powi (d - 1) < \<bar>x\<bar>"
  proof -
    have "2 powi (d - 1) * (of_int q :: rat) < 2 powi (d - 1) * 2 powi bq"
      using q_hi by (intro mult_strict_left_mono) simp_all
    also have "\<dots> = 2 powi (bp - 1)"
      unfolding d_def by (simp flip: power_int_add)
    also have "\<dots> \<le> of_int p" using p_lo .
    finally show ?thesis unfolding ax using Q by (simp add: pos_less_divide_eq)
  qed
  have e: "ilog2 x = (if 2 powi d \<le> \<bar>x\<bar> then d else d - 1)"
    unfolding ilog2_def pq d_def bp_def bq_def by (simp add: Let_def)
  show "2 powi (ilog2 x) \<le> \<bar>x\<bar>"
    using lower unfolding e by (simp split: if_splits)
  show "\<bar>x\<bar> < 2 powi (ilog2 x + 1)"
    using upper unfolding e by (auto split: if_splits)
qed

lemma round_even_of_int [simp]: "round_even (of_int n) = n"
  by (simp add: round_even_def)

lemma round_even_near: "\<bar>of_int (round_even y) - y\<bar> \<le> 1 / 2"
proof -
  have "of_int \<lfloor>y\<rfloor> \<le> y" "y < of_int \<lfloor>y\<rfloor> + 1" by linarith+
  then show ?thesis
    unfolding round_even_def Let_def by (auto split: if_splits simp: abs_le_iff)
qed

lemma pow2_less_cancel:
  assumes "(2::rat) powi a \<le> x" and "x < 2 powi b"
  shows "a < b"
proof (rule ccontr)
  assume "\<not> a < b"
  then have "b \<le> a" by simp
  then have "(2::rat) powi b \<le> 2 powi a" by (intro power_int_increasing) simp_all
  with assms show False by simp
qed

lemma float_round_exact:
  fixes i :: int and k :: nat
  assumes i: "i \<noteq> 0" "\<bar>i\<bar> < 2 ^ 24" and k: "k \<le> 100"
  shows "float_round (of_int i / 2 ^ k) = Finite (of_int i / 2 ^ k)"
proof -
  define x :: rat where "x = of_int i / 2 ^ k"
  define e where "e = ilog2 x"
  have x0: "x \<noteq> 0" using i unfolding x_def by simp
  have xk: "x = of_int i * 2 powi (- int k)"
    unfolding x_def by (simp add: power_int_minus field_simps)
  have ax: "\<bar>x\<bar> = of_int \<bar>i\<bar> * 2 powi (- int k)"
    unfolding xk by (simp add: abs_mult)
  have lo: "2 powi e \<le> \<bar>x\<bar>" and hi: "\<bar>x\<bar> < 2 powi (e + 1)"
    using ilog2_bounds[OF x0] unfolding e_def by simp_all
  have "1 \<le> \<bar>i\<bar>" using i by simp
  then have "(1::rat) \<le> of_int \<bar>i\<bar>" by (simp only: of_int_1_le_iff)
  then have "1 * 2 powi (- int k) \<le> of_int \<bar>i\<bar> * (2::rat) powi (- int k)"
    by (intro mult_right_mono) simp_all
  then have "2 powi (- int k) \<le> \<bar>x\<bar>" unfolding ax by simp
  then have "- int k < e + 1" using hi by (rule pow2_less_cancel)
  then have e_lo: "- 100 \<le> e" using k by simp
  have "(of_int \<bar>i\<bar> :: rat) < of_int (2 ^ 24)" using i(2) by (simp only: of_int_less_iff)
  then have "of_int \<bar>i\<bar> * 2 powi (- int k) < (2::rat) ^ 24 * 2 powi (- int k)"
    by (intro mult_strict_right_mono) simp_all
  also have "\<dots> = 2 powi (24 - int k)"
    by (simp add: power_int_diff power_int_minus field_simps)
  finally have "\<bar>x\<bar> < 2 powi (24 - int k)" unfolding ax .
  with lo have "e < 24 - int k" by (rule pow2_less_cancel)
  then have j: "0 \<le> 23 - int k - e" by simp
  have m: "max e (- 126) = e" using e_lo by simp
  have "x / 2 powi (e - 23) = of_int i * (2 powi (- int k) * 2 powi (23 - e))"
    unfolding xk by (simp add: power_int_diff field_simps)
  also have "2 powi (- int k) * (2::rat) powi (23 - e) = 2 powi (23 - int k - e)"
    by (simp flip: power_int_add) (simp add: algebra_simps)
  also have "\<dots> = 2 ^ nat (23 - int k - e)" using j by (simp add: power_int_def)
  finally have y: "x / 2 powi (e - 23) = of_int (i * 2 ^ nat (23 - int k - e))"
    by simp
  have restore: "of_int (i * 2 ^ nat (23 - int k - e)) * 2 powi (e - 23) = x"
    using y by (simp add: field_simps)
  have "\<bar>x\<bar> < 2 powi (24 - int k)" by fact
  also have "\<dots> \<le> 2 powi 128" by (intro power_int_increasing) simp_all
  finally have small: "\<not> 2 ^ 128 \<le> \<bar>x\<bar>" by simp
  show ?thesis
    unfolding x_def[symmetric] float_round_def e_def[symmetric] m Let_def y round_even_of_int restore
    using x0 small by simp
qed

lemma float_round_bounds:
  assumes lo: "2 powi (- 126) \<le> \<bar>x\<bar>" and hi: "\<bar>x\<bar> \<le> 2 ^ 100"
  shows "\<exists>r. float_round x = Finite r \<and> \<bar>x\<bar> / 2 \<le> \<bar>r\<bar> \<and> \<bar>r\<bar> \<le> 2 * \<bar>x\<bar>"
proof -
  define e where "e = ilog2 x"
  define ulp :: rat where "ulp = 2 powi (e - 23)"
  define r where "r = of_int (round_even (x / ulp)) * ulp"
  have "(0::rat) < 2 powi (- 126)" by simp
  with lo have x0: "x \<noteq> 0" by auto
  have elo: "2 powi e \<le> \<bar>x\<bar>" and ehi: "\<bar>x\<bar> < 2 powi (e + 1)"
    using ilog2_bounds[OF x0] unfolding e_def by simp_all
  from lo ehi have "- 126 < e + 1" by (rule pow2_less_cancel)
  then have m: "max e (- 126) = e" by simp
  have ulp0: "0 < ulp" unfolding ulp_def by simp
  have "ulp \<le> 2 powi e" unfolding ulp_def by (intro power_int_increasing) simp_all
  then have ulpx: "ulp \<le> \<bar>x\<bar>" using elo by simp
  have "\<bar>of_int (round_even (x / ulp)) - x / ulp\<bar> \<le> 1 / 2" by (rule round_even_near)
  then have "\<bar>of_int (round_even (x / ulp)) - x / ulp\<bar> * ulp \<le> 1 / 2 * ulp"
    using ulp0 by (intro mult_right_mono) simp_all
  moreover have "\<bar>of_int (round_even (x / ulp)) - x / ulp\<bar> * ulp = \<bar>r - x\<bar>"
  proof -
    have "(of_int (round_even (x / ulp)) - x / ulp) * ulp = r - x"
      unfolding r_def using ulp0 by (simp add: left_diff_distrib)
    then have "\<bar>r - x\<bar> = \<bar>of_int (round_even (x / ulp)) - x / ulp\<bar> * \<bar>ulp\<bar>"
      by (simp only: abs_mult[symmetric])
    then show ?thesis using ulp0 by simp
  qed
  ultimately have near: "\<bar>r - x\<bar> \<le> \<bar>x\<bar> / 2" using ulpx by simp
  then have b1: "\<bar>x\<bar> / 2 \<le> \<bar>r\<bar>" and b2: "\<bar>r\<bar> \<le> 2 * \<bar>x\<bar>" by linarith+
  have "\<bar>r\<bar> \<le> 2 * 2 ^ 100" using b2 hi by simp
  then have small: "\<not> 2 ^ 128 \<le> \<bar>r\<bar>" by simp
  have "float_round x = Finite r"
    unfolding float_round_def e_def[symmetric] m Let_def ulp_def[symmetric] r_def[symmetric]
    using x0 small by simp
  with b1 b2 show ?thesis by blast
qed

lemma float_of_int_exact:
  assumes "\<bar>i\<bar> < 2 ^ 24"
  shows "float_of_int i = Finite (of_int i)"
proof (cases "i = 0")
  case True
  then show ?thesis by (simp add: float_of_int_def float_round_def)
next
  case False
  then show ?thesis
    using float_round_exact[of i 0] assms by (simp add: float_of_int_def)
qed

lemma float_eighth_exact:
  assumes "\<bar>i\<bar> < 2 ^ 24"
  shows "float_round (of_int i / 8) = Finite (of_int i / 8)"
proof (cases "i = 0")
  case True
  then show ?thesis by (simp add: float_round_def)
next
  case False
  then show ?thesis
    using float_round_exact[of i 3] assms by simp
qed

lemma float_round_upper:
  assumes hi: "\<bar>x\<bar> \<le> 2 ^ 100"
  shows "\<exists>r. float_round x = Finite r \<and> \<bar>r\<bar> \<le> 2 * \<bar>x\<bar> + 1"
proof (cases "x = 0")
  case True
  then show ?thesis by (simp add: float_round_def)
next
  case x0: False
  define e where "e = ilog2 x"
  define ulp :: rat where "ulp = 2 powi (max e (- 126) - 23)"
  define r where "r = of_int (round_even (x / ulp)) * ulp"
  have elo: "2 powi e \<le> \<bar>x\<bar>" using ilog2_bounds(1)[OF x0] unfolding e_def .
  have ulp0: "0 < ulp" unfolding ulp_def by simp
  have ulpx: "ulp \<le> \<bar>x\<bar> + 1"
  proof (cases "- 126 \<le> e")
    case True
    then have "ulp = 2 powi (e - 23)" unfolding ulp_def by simp
    also have "\<dots> \<le> 2 powi e" by (intro power_int_increasing) simp_all
    finally show ?thesis using elo by simp
  next
    case False
    then have "ulp = 2 powi (- 149)" unfolding ulp_def by simp
    also have "\<dots> \<le> 2 powi 0" by (intro power_int_increasing) simp_all
    finally show ?thesis by simp
  qed
  have "\<bar>of_int (round_even (x / ulp)) - x / ulp\<bar> \<le> 1 / 2" by (rule round_even_near)
  then have "\<bar>of_int (round_even (x / ulp)) - x / ulp\<bar> * ulp \<le> 1 / 2 * ulp"
    using ulp0 by (intro mult_right_mono) simp_all
  moreover have "\<bar>of_int (round_even (x / ulp)) - x / ulp\<bar> * ulp = \<bar>r - x\<bar>"
  proof -
    have "(of_int (round_even (x / ulp)) - x / ulp) * ulp = r - x"
      unfolding r_def using ulp0 by (simp add: left_diff_distrib)
    then have "\<bar>r - x\<bar> = \<bar>of_int (round_even (x / ulp)) - x / ulp\<bar> * \<bar>ulp\<bar>"
      by (simp only: abs_mult[symmetric])
    then show ?thesis using ulp0 by simp
  qed
  ultimately have near: "\<bar>r - x\<bar> \<le> (\<bar>x\<bar> + 1) / 2" using ulpx by simp
  have tri: "\<bar>r\<bar> \<le> \<bar>r - x\<bar> + \<bar>x\<bar>" using abs_triangle_ineq[of "r - x" x] by simp
  have b: "\<bar>r\<bar> \<le> 2 * \<bar>x\<bar> + 1"
  proof -
    define a where "a = \<bar>x\<bar>"
    define d where "d = \<bar>r - x\<bar>"
    define c where "c = \<bar>r\<bar>"
    have "0 \<le> a" "c \<le> d + a" "2 * d \<le> a + 1"
      using tri near unfolding a_def d_def c_def by simp_all
    then have "c \<le> 2 * a + 1" by linarith
    then show ?thesis unfolding a_def c_def .
  qed
  then have "\<bar>r\<bar> \<le> 2 * 2 ^ 100 + 1" using hi by simp
  then have small: "\<not> 2 ^ 128 \<le> \<bar>r\<bar>" by simp
  have "float_round x = Finite r"
    unfolding float_round_def e_def[symmetric] Let_def ulp_def[symmetric] r_def[symmetric]
    using x0 small by simp
  with b show ?thesis by blast
qed

lemma float_of_int_finite:
  assumes "\<bar>i\<bar> \<le> 2 ^ 31"
  shows "\<exists>r. float_of_int i = Finite r \<and> \<bar>r\<bar> \<le> 2 ^ 33 \<and> (i \<noteq> 0 \<longrightarrow> 1 / 2 \<le> \<bar>r\<bar>)"
proof (cases "i = 0")
  case True
  then show ?thesis by (simp add: float_of_int_def float_round_def)
next
  case False
  then have "1 \<le> \<bar>i\<bar>" by simp
  then have one: "(1::rat) \<le> \<bar>of_int i\<bar>" by (simp flip: of_int_abs)
  have "(of_int \<bar>i\<bar> :: rat) \<le> of_int (2 ^ 31)" using assms by (simp only: of_int_le_iff)
  then have hi: "\<bar>of_int i :: rat\<bar> \<le> 2 ^ 31" by simp
  have "(2::rat) powi (- 126) \<le> 2 powi 0" by (intro power_int_increasing) simp_all
  then have lo: "2 powi (- 126) \<le> \<bar>of_int i :: rat\<bar>" using one by simp
  have hi': "\<bar>of_int i :: rat\<bar> \<le> 2 ^ 100" using hi by simp
  from float_round_bounds[OF lo hi'] obtain r where
    r: "float_round (of_int i) = Finite r" "\<bar>of_int i\<bar> / 2 \<le> \<bar>r\<bar>" "\<bar>r\<bar> \<le> 2 * \<bar>of_int i\<bar>"
    by blast
  have "\<bar>r\<bar> \<le> 2 ^ 33" using r(3) hi by simp
  moreover have "1 / 2 \<le> \<bar>r\<bar>" using r(2) one by simp
  ultimately show ?thesis using r(1) by (simp add: float_of_int_def)
qed

lemma PacketSize_bytes_per_packet_finite:
  assumes B: "\<bar>LyraDecoder_bitrate api decoder\<bar> \<le> 2 ^ 31"
    and F: "\<bar>LyraDecoder_frame_rate api decoder\<bar> \<le> 2 ^ 31"
    and K: "\<bar>kNumFramesPerPacket cfg\<bar> \<le> 2 ^ 31"
    and F0: "LyraDecoder_frame_rate api decoder \<noteq> 0"
  shows "\<exists>v. PacketSize_bytes_per_packet cfg api decoder = Finite v"
proof -
  from float_of_int_finite[OF B] obtain b where
    b: "float_of_int (LyraDecoder_bitrate api decoder) = Finite b" "\<bar>b\<bar> \<le> 2 ^ 33"
    by blast
  from float_of_int_finite[OF F] F0 obtain f where
    f: "float_of_int (LyraDecoder_frame_rate api decoder) = Finite f" "1 / 2 \<le> \<bar>f\<bar>"
    by blast
  from float_of_int_finite[OF K] obtain k where
    k: "float_of_int (kNumFramesPerPacket cfg) = Finite k" "\<bar>k\<bar> \<le> 2 ^ 33"
    by blast
  have f0: "f \<noteq> 0" using f(2) by auto
  have "\<bar>b / f\<bar> = \<bar>b\<bar> / \<bar>f\<bar>" by simp
  also have "\<dots> \<le> 2 ^ 33 / (1 / 2)"
    using b(2) f(2) by (intro frac_le) simp_all
  finally have bf: "\<bar>b / f\<bar> \<le> 2 ^ 34" by simp
  then have "\<bar>b / f\<bar> \<le> 2 ^ 100" by simp
  from float_round_upper[OF this] obtain q where
    q: "float_round (b / f) = Finite q" "\<bar>q\<bar> \<le> 2 * \<bar>b / f\<bar> + 1"
    by blast
  have q36: "\<bar>q\<bar> \<le> 2 ^ 36" using q(2) bf by simp
  have "\<bar>q * k\<bar> = \<bar>q\<bar> * \<bar>k\<bar>" by (simp add: abs_mult)
  also have "\<dots> \<le> 2 ^ 36 * 2 ^ 33" using q36 k(2) by (intro mult_mono) simp_all
  finally have qk: "\<bar>q * k\<bar> \<le> 2 ^ 69" by simp
  then have "\<bar>q * k\<bar> \<le> 2 ^ 100" by simp
  from float_round_upper[OF this] obtain p where
    p: "float_round (q * k) = Finite p" "\<bar>p\<bar> \<le> 2 * \<bar>q * k\<bar> + 1"
    by blast
  have p71: "\<bar>p\<bar> \<le> 2 ^ 71" using p(2) qk by simp
  have c8: "float_of_int CHAR_BIT = Finite 8"
    using float_of_int_exact[of 8] by (simp add: CHAR_BIT_def)
  have "\<bar>p / 8\<bar> \<le> 2 ^ 100" using p71 by simp
  from float_round_upper[OF this] obtain v where v: "float_round (p / 8) = Finite v"
    by blast
  show ?thesis
    by (simp add: PacketSize_bytes_per_packet_def b f k f0 q p c8 v)
qed

text \<open>Exactness up to and including \<open>2 ^ 24\<close>, the largest 24-bit significand after a carry.\<close>

lemma pow2_le_cancel:
  assumes "(2::rat) powi a \<le> 2 powi b"
  shows "a \<le> b"
proof (rule ccontr)
  assume "\<not> a \<le> b"
  then have "b < a" by simp
  then have "(2::rat) powi b < 2 powi a" by (intro power_int_strict_increasing) simp_all
  with assms show False by simp
qed

lemma float_round_exact_le:
  fixes i :: int and k :: nat
  assumes i: "i \<noteq> 0" "\<bar>i\<bar> \<le> 2 ^ 24" and k: "k \<le> 100"
  shows "float_round (of_int i / 2 ^ k) = Finite (of_int i / 2 ^ k)"
proof -
  define x :: rat where "x = of_int i / 2 ^ k"
  define e where "e = ilog2 x"
  have x0: "x \<noteq> 0" using i unfolding x_def by simp
  have xk: "x = of_int i * 2 powi (- int k)"
    unfolding x_def by (simp add: power_int_minus field_simps)
  have ax: "\<bar>x\<bar> = of_int \<bar>i\<bar> * 2 powi (- int k)"
    unfolding xk by (simp add: abs_mult)
  have lo: "2 powi e \<le> \<bar>x\<bar>" and hi: "\<bar>x\<bar> < 2 powi (e + 1)"
    using ilog2_bounds[OF x0] unfolding e_def by simp_all
  have "1 \<le> \<bar>i\<bar>" using i by simp
  then have "(1::rat) \<le> of_int \<bar>i\<bar>" by (simp only: of_int_1_le_iff)
  then have "1 * 2 powi (- int k) \<le> of_int \<bar>i\<bar> * (2::rat) powi (- int k)"
    by (intro mult_right_mono) simp_all
  then have "2 powi (- int k) \<le> \<bar>x\<bar>" unfolding ax by simp
  then have "- int k < e + 1" using hi by (rule pow2_less_cancel)
  then have e_lo: "- 100 \<le> e" using k by simp
  have top: "(2::rat) ^ 24 * 2 powi (- int k) = 2 powi (24 - int k)"
    by (simp add: power_int_diff power_int_minus field_simps)
  have "(of_int \<bar>i\<bar> :: rat) \<le> of_int (2 ^ 24)" using i(2) by (simp only: of_int_le_iff)
  then have "of_int \<bar>i\<bar> * 2 powi (- int k) \<le> (2::rat) ^ 24 * 2 powi (- int k)"
    by (intro mult_right_mono) simp_all
  then have xhi: "\<bar>x\<bar> \<le> 2 powi (24 - int k)" unfolding ax top .
  with lo have "(2::rat) powi e \<le> 2 powi (24 - int k)" by simp
  then have e_hi: "e \<le> 24 - int k" by (rule pow2_le_cancel)
  have m: "max e (- 126) = e" using e_lo by simp
  have scaled: "x / 2 powi (e - 23) = of_int i * 2 powi (23 - int k - e)"
  proof -
    have "x / 2 powi (e - 23) = of_int i * (2 powi (- int k) * 2 powi (23 - e))"
      unfolding xk by (simp add: power_int_diff field_simps)
    also have "2 powi (- int k) * (2::rat) powi (23 - e) = 2 powi (23 - int k - e)"
      by (simp flip: power_int_add) (simp add: algebra_simps)
    finally show ?thesis .
  qed
  have "\<exists>n. x / 2 powi (e - 23) = of_int n"
  proof (cases "e = 24 - int k")
    case True
    then have "(2::rat) ^ 24 * 2 powi (- int k) \<le> of_int \<bar>i\<bar> * 2 powi (- int k)"
      using lo unfolding ax top by simp
    then have "(2::rat) ^ 24 \<le> of_int \<bar>i\<bar>" by simp
    then have "(of_int (2 ^ 24) :: rat) \<le> of_int \<bar>i\<bar>" by simp
    then have "2 ^ 24 \<le> \<bar>i\<bar>" by (simp only: of_int_le_iff)
    then have "\<bar>i\<bar> = 2 ^ 24" using i(2) by simp
    then have "i = 16777216 \<or> i = - 16777216" by (simp add: abs_if split: if_splits)
    then have "even i" by auto
    then have half: "i = 2 * (i div 2)" by simp
    have "x / 2 powi (e - 23) = of_int i * 2 powi (- 1)" unfolding scaled using True by simp
    also have "\<dots> = of_int (2 * (i div 2)) / 2" using half by (simp add: power_int_minus)
    also have "\<dots> = of_int (i div 2)" by simp
    finally show ?thesis by blast
  next
    case False
    then have j: "0 \<le> 23 - int k - e" using e_hi by simp
    have "(2::rat) powi (23 - int k - e) = 2 ^ nat (23 - int k - e)"
      using j by (simp add: power_int_def)
    then have "x / 2 powi (e - 23) = of_int (i * 2 ^ nat (23 - int k - e))"
      unfolding scaled by simp
    then show ?thesis by blast
  qed
  then obtain n where y: "x / 2 powi (e - 23) = of_int n" by blast
  have restore: "of_int n * 2 powi (e - 23) = x"
    using y by (simp add: field_simps)
  have "\<bar>x\<bar> \<le> 2 powi (24 - int k)" by fact
  also have "\<dots> \<le> 2 powi 127" by (intro power_int_increasing) simp_all
  finally have small: "\<not> 2 ^ 128 \<le> \<bar>x\<bar>" by simp
  show ?thesis
    unfolding x_def[symmetric] float_round_def e_def[symmetric] m Let_def y round_even_of_int restore
    using x0 small by simp
qed

text \<open>Rounding in the normal range: the result and its distance from the argument.\<close>

lemma float_round_normal:
  assumes lo: "2 powi (- 126) \<le> \<bar>x\<bar>" and hi: "\<bar>x\<bar> \<le> 2 ^ 100"
  shows "float_round x =
           Finite (of_int (round_even (x / 2 powi (ilog2 x - 23))) * 2 powi (ilog2 x - 23))"
    and "\<bar>of_int (round_even (x / 2 powi (ilog2 x - 23))) * 2 powi (ilog2 x - 23) - x\<bar>
           \<le> 2 powi (ilog2 x - 24)"
proof -
  define e where "e = ilog2 x"
  define ulp :: rat where "ulp = 2 powi (e - 23)"
  define r where "r = of_int (round_even (x / ulp)) * ulp"
  have "(0::rat) < 2 powi (- 126)" by simp
  with lo have x0: "x \<noteq> 0" by auto
  have elo: "2 powi e \<le> \<bar>x\<bar>" and ehi: "\<bar>x\<bar> < 2 powi (e + 1)"
    using ilog2_bounds[OF x0] unfolding e_def by simp_all
  from lo ehi have "- 126 < e + 1" by (rule pow2_less_cancel)
  then have m: "max e (- 126) = e" by simp
  have ulp0: "0 < ulp" unfolding ulp_def by simp
  have half: "ulp / 2 = 2 powi (e - 24)"
    unfolding ulp_def by (simp add: power_int_diff)
  have "ulp \<le> 2 powi e" unfolding ulp_def by (intro power_int_increasing) simp_all
  then have ulpx: "ulp \<le> \<bar>x\<bar>" using elo by simp
  have "\<bar>of_int (round_even (x / ulp)) - x / ulp\<bar> \<le> 1 / 2" by (rule round_even_near)
  then have "\<bar>of_int (round_even (x / ulp)) - x / ulp\<bar> * ulp \<le> 1 / 2 * ulp"
    using ulp0 by (intro mult_right_mono) simp_all
  moreover have "\<bar>of_int (round_even (x / ulp)) - x / ulp\<bar> * ulp = \<bar>r - x\<bar>"
  proof -
    have "(of_int (round_even (x / ulp)) - x / ulp) * ulp = r - x"
      unfolding r_def using ulp0 by (simp add: left_diff_distrib)
    then have "\<bar>r - x\<bar> = \<bar>of_int (round_even (x / ulp)) - x / ulp\<bar> * \<bar>ulp\<bar>"
      by (simp only: abs_mult[symmetric])
    then show ?thesis using ulp0 by simp
  qed
  ultimately have near: "\<bar>r - x\<bar> \<le> ulp / 2" by simp
  have tri: "\<bar>r\<bar> \<le> \<bar>r - x\<bar> + \<bar>x\<bar>" using abs_triangle_ineq[of "r - x" x] by simp
  have "\<bar>r\<bar> \<le> 2 * \<bar>x\<bar>" using tri near ulpx ulp0 by linarith
  then have "\<bar>r\<bar> \<le> 2 * 2 ^ 100" using hi by simp
  then have small: "\<not> 2 ^ 128 \<le> \<bar>r\<bar>" by simp
  have "float_round x = Finite r"
    unfolding float_round_def e_def[symmetric] m Let_def ulp_def[symmetric] r_def[symmetric]
    using x0 small by simp
  then show "float_round x =
      Finite (of_int (round_even (x / 2 powi (ilog2 x - 23))) * 2 powi (ilog2 x - 23))"
    unfolding r_def ulp_def e_def .
  show "\<bar>of_int (round_even (x / 2 powi (ilog2 x - 23))) * 2 powi (ilog2 x - 23) - x\<bar>
      \<le> 2 powi (ilog2 x - 24)"
    using near unfolding half unfolding r_def ulp_def e_def .
qed

text \<open>
  The quotient of two integers, the dividend below \<open>2 ^ 24\<close>: rounding moves it
  across no integer, and the result has at most 24 significant bits.
\<close>

lemma float_round_quotient:
  fixes B F :: int
  assumes B0: "B \<noteq> 0" and F0: "F \<noteq> 0" and Bs: "\<bar>B\<bar> < 2 ^ 24" and Fs: "\<bar>F\<bar> \<le> 2 ^ 32"
  shows "\<exists>n k. float_round (of_int B / of_int F) = Finite (of_int n / 2 ^ k) \<and>
           \<bar>n\<bar> \<le> 2 ^ 24 \<and> k \<le> 60 \<and>
           (\<forall>N::int. (of_int N < (of_int B / of_int F :: rat) \<longrightarrow>
                         of_int N < (of_int n / 2 ^ k :: rat)) \<and>
                      ((of_int B / of_int F :: rat) \<le> of_int N \<longrightarrow>
                         (of_int n / 2 ^ k :: rat) \<le> of_int N))"
proof -
  define x :: rat where "x = of_int B / of_int F"
  define e where "e = ilog2 x"
  define ulp :: rat where "ulp = 2 powi (e - 23)"
  define n where "n = round_even (x / ulp)"
  define q where "q = of_int n * ulp"
  have x0: "x \<noteq> 0" using B0 F0 unfolding x_def by simp
  have aB: "(1::rat) \<le> \<bar>of_int B\<bar>" "\<bar>of_int B :: rat\<bar> < 2 ^ 24"
  proof -
    have "1 \<le> \<bar>B\<bar>" using B0 by simp
    then show "(1::rat) \<le> \<bar>of_int B\<bar>" by (simp flip: of_int_abs)
    have "(of_int \<bar>B\<bar> :: rat) < of_int (2 ^ 24)" using Bs by (simp only: of_int_less_iff)
    then show "\<bar>of_int B :: rat\<bar> < 2 ^ 24" by simp
  qed
  have aF: "(1::rat) \<le> \<bar>of_int F\<bar>" "\<bar>of_int F :: rat\<bar> \<le> 2 ^ 32"
  proof -
    have "1 \<le> \<bar>F\<bar>" using F0 by simp
    then show "(1::rat) \<le> \<bar>of_int F\<bar>" by (simp flip: of_int_abs)
    have "(of_int \<bar>F\<bar> :: rat) \<le> of_int (2 ^ 32)" using Fs by (simp only: of_int_le_iff)
    then show "\<bar>of_int F :: rat\<bar> \<le> 2 ^ 32" by simp
  qed
  have ax: "\<bar>x\<bar> = \<bar>of_int B\<bar> / \<bar>of_int F\<bar>" unfolding x_def by simp
  have xlo: "1 / 2 ^ 32 \<le> \<bar>x\<bar>"
    unfolding ax using aB(1) aF by (intro frac_le) simp_all
  have xhi: "\<bar>x\<bar> < 2 ^ 24"
  proof -
    have "\<bar>of_int B\<bar> / \<bar>of_int F :: rat\<bar> \<le> \<bar>of_int B\<bar> / 1"
      using aF(1) by (intro frac_le) simp_all
    then show ?thesis unfolding ax using aB(2) by simp
  qed
  have "(2::rat) powi (- 126) \<le> 2 powi (- 32)" by (intro power_int_increasing) simp_all
  also have "\<dots> = 1 / 2 ^ 32" by (simp add: power_int_minus field_simps)
  finally have lo126: "2 powi (- 126) \<le> \<bar>x\<bar>" using xlo by simp
  have hi100: "\<bar>x\<bar> \<le> 2 ^ 100" using xhi by simp
  have elo: "2 powi e \<le> \<bar>x\<bar>" and ehi: "\<bar>x\<bar> < 2 powi (e + 1)"
    using ilog2_bounds[OF x0] unfolding e_def by simp_all
  have "(2::rat) powi (- 32) \<le> \<bar>x\<bar>" using xlo by (simp add: power_int_minus field_simps)
  then have "- 32 < e + 1" using ehi by (rule pow2_less_cancel)
  then have e_lo: "- 32 \<le> e" by simp
  have "\<bar>x\<bar> < 2 powi 24" using xhi by simp
  with elo have "e < 24" by (rule pow2_less_cancel)
  then have e_hi: "e \<le> 23" by simp
  define k where "k = nat (23 - e)"
  have k: "k \<le> 60" "int k = 23 - e" using e_lo e_hi unfolding k_def by simp_all
  have ulp0: "0 < ulp" unfolding ulp_def by simp
  have ulpk: "ulp = 1 / 2 ^ k"
  proof -
    have "ulp = 2 powi (- int k)" unfolding ulp_def k(2) by simp
    then show ?thesis by (simp add: power_int_minus field_simps)
  qed
  have qk: "q = of_int n / 2 ^ k" unfolding q_def ulpk by simp
  have round: "float_round x = Finite q"
    using float_round_normal(1)[OF lo126 hi100]
    unfolding q_def n_def ulp_def e_def .
  have near: "\<bar>q - x\<bar> \<le> ulp / 2"
  proof -
    have "ulp / 2 = 2 powi (e - 24)" unfolding ulp_def by (simp add: power_int_diff)
    then show ?thesis
      using float_round_normal(2)[OF lo126 hi100]
      unfolding q_def n_def ulp_def e_def by simp
  qed
  have nsize: "\<bar>n\<bar> \<le> 2 ^ 24"
  proof -
    have "\<bar>x / ulp\<bar> = \<bar>x\<bar> / ulp" using ulp0 by simp
    also have "\<dots> < 2 powi (e + 1) / ulp" using ehi ulp0 by (simp add: divide_strict_right_mono)
    also have "\<dots> = 2 ^ 24" unfolding ulp_def by (simp flip: power_int_diff)
    finally have y: "\<bar>x / ulp\<bar> < 2 ^ 24" .
    have "\<bar>of_int n - x / ulp\<bar> \<le> 1 / 2" unfolding n_def by (rule round_even_near)
    moreover have "\<bar>of_int n :: rat\<bar> \<le> \<bar>of_int n - x / ulp\<bar> + \<bar>x / ulp\<bar>"
      using abs_triangle_ineq[of "of_int n - x / ulp" "x / ulp"] by simp
    ultimately have "\<bar>of_int n :: rat\<bar> < 2 ^ 24 + 1" using y by simp
    then have "(of_int \<bar>n\<bar> :: rat) < of_int (2 ^ 24 + 1)" by simp
    then have "\<bar>n\<bar> < 2 ^ 24 + 1" by (simp only: of_int_less_iff)
    then show ?thesis by simp
  qed
  have gap: "ulp / 2 < 1 / \<bar>of_int F\<bar>"
  proof -
    have "ulp / 2 * \<bar>of_int B\<bar> < ulp / 2 * 2 ^ 24"
      using aB(2) ulp0 by (intro mult_strict_left_mono) simp_all
    also have "\<dots> = 2 powi e" unfolding ulp_def by (simp add: power_int_diff)
    also have "\<dots> \<le> \<bar>of_int B\<bar> / \<bar>of_int F\<bar>" using elo unfolding ax .
    finally have "ulp / 2 * \<bar>of_int B\<bar> < 1 / \<bar>of_int F\<bar> * \<bar>of_int B\<bar>" by simp
    moreover have "0 < \<bar>of_int B :: rat\<bar>" using aB(1) by simp
    ultimately show ?thesis by (simp only: mult_less_cancel_right_pos)
  qed
  have apart: "1 / \<bar>of_int F\<bar> \<le> \<bar>x - of_int N\<bar>" if "x \<noteq> of_int N" for N :: int
  proof -
    have diff: "x - of_int N = of_int (B - N * F) / of_int F"
      unfolding x_def using F0 by (simp add: field_simps)
    have "B - N * F \<noteq> 0"
    proof
      assume "B - N * F = 0"
      then have "x - of_int N = 0" unfolding diff by simp
      with that show False by simp
    qed
    then have "1 \<le> \<bar>B - N * F\<bar>" by simp
    then have "(of_int 1 :: rat) \<le> of_int \<bar>B - N * F\<bar>" by (simp only: of_int_le_iff)
    then have "(1::rat) \<le> \<bar>of_int (B - N * F)\<bar>" by (simp only: of_int_abs of_int_1)
    then have "1 / \<bar>of_int F\<bar> \<le> \<bar>of_int (B - N * F) :: rat\<bar> / \<bar>of_int F\<bar>"
      using aF(1) by (intro divide_right_mono) simp_all
    then show ?thesis unfolding diff by simp
  qed
  have across: "(of_int N < x \<longrightarrow> of_int N < q) \<and> (x \<le> of_int N \<longrightarrow> q \<le> of_int N)"
    for N :: int
  proof (intro conjI impI)
    assume "of_int N < x"
    then have "ulp / 2 < x - of_int N" using apart[of N] gap by simp
    then show "of_int N < q" using near by linarith
  next
    assume le: "x \<le> of_int N"
    show "q \<le> of_int N"
    proof (cases "x = of_int N")
      case True
      have "\<bar>of_int N :: rat\<bar> < 2 ^ 24" using xhi unfolding True .
      then have "(of_int \<bar>N\<bar> :: rat) < of_int (2 ^ 24)" by simp
      then have "\<bar>N\<bar> < 2 ^ 24" by (simp only: of_int_less_iff)
      then have "float_round (of_int N) = Finite (of_int N)"
        using float_of_int_exact[of N] unfolding float_of_int_def by simp
      then have "Finite q = Finite (of_int N)" using round unfolding True by simp
      then show ?thesis by simp
    next
      case False
      then have "ulp / 2 < of_int N - x" using apart[of N] gap le by simp
      then show ?thesis using near by linarith
    qed
  qed
  show ?thesis
    using round nsize k(1) across unfolding qk x_def by blast
qed

text \<open>
  The divisor of \<open>PacketSize\<close> after its conversion to \<open>float\<close>: it is an integer again, and
  with a dividend below \<open>2 ^ 24\<close> the ceiling of an eighth of the quotient is the same
  for the converted divisor and for the divisor itself.
\<close>

lemma float_of_int_divisor:
  fixes B F :: int
  assumes B0: "B \<noteq> 0" and Bs: "\<bar>B\<bar> < 2 ^ 24" and F0: "F \<noteq> 0" and Fs: "\<bar>F\<bar> \<le> 2 ^ 31"
  shows "\<exists>G::int. float_of_int F = Finite (of_int G) \<and> G \<noteq> 0 \<and> \<bar>G\<bar> \<le> 2 ^ 32 \<and>
           \<lceil>(of_int B :: rat) / of_int G / 8\<rceil> = \<lceil>(of_int B :: rat) / (of_int F * 8)\<rceil>"
proof (cases "\<bar>F\<bar> < 2 ^ 24")
  case True
  have "float_of_int F = Finite (of_int F)" using True by (rule float_of_int_exact)
  moreover have "\<bar>F\<bar> \<le> 2 ^ 32" using Fs by simp
  moreover have "(of_int B :: rat) / of_int F / 8 = of_int B / (of_int F * 8)" by simp
  ultimately show ?thesis using F0 by metis
next
  case False
  then have Fbig: "2 ^ 24 \<le> \<bar>F\<bar>" by simp
  define x :: rat where "x = of_int F"
  define e where "e = ilog2 x"
  define u :: rat where "u = 2 powi (e - 23)"
  define n where "n = round_even (x / u)"
  define G where "G = n * 2 ^ nat (e - 23)"
  have x0: "x \<noteq> 0" using F0 unfolding x_def by simp
  have "(of_int (2 ^ 24) :: rat) \<le> of_int \<bar>F\<bar>" using Fbig by (simp only: of_int_le_iff)
  then have xbig: "2 ^ 24 \<le> \<bar>x\<bar>" unfolding x_def by simp
  have "(of_int \<bar>F\<bar> :: rat) \<le> of_int (2 ^ 31)" using Fs by (simp only: of_int_le_iff)
  then have xs: "\<bar>x\<bar> \<le> 2 ^ 31" unfolding x_def by simp
  have "(2::rat) powi (- 126) \<le> 2 powi 24" by (intro power_int_increasing) simp_all
  then have lo: "2 powi (- 126) \<le> \<bar>x\<bar>" using xbig by simp
  have hi: "\<bar>x\<bar> \<le> 2 ^ 100" using xs by simp
  have elo: "2 powi e \<le> \<bar>x\<bar>" and ehi: "\<bar>x\<bar> < 2 powi (e + 1)"
    using ilog2_bounds[OF x0] unfolding e_def by simp_all
  have "(2::rat) powi 24 \<le> \<bar>x\<bar>" using xbig by simp
  then have "24 < e + 1" using ehi by (rule pow2_less_cancel)
  then have e24: "24 \<le> e" by simp
  have "u = of_int (2 ^ nat (e - 23))"
    unfolding u_def using e24 by (simp add: power_int_def)
  then have nu: "of_int n * u = of_int G" unfolding G_def by simp
  have "float_round x = Finite (of_int n * u)"
    using float_round_normal(1)[OF lo hi]
    unfolding e_def[symmetric] u_def[symmetric] n_def[symmetric] .
  then have round: "float_round x = Finite (of_int G)" unfolding nu .
  have "\<bar>of_int n * u - x\<bar> \<le> 2 powi (e - 24)"
    using float_round_normal(2)[OF lo hi]
    unfolding e_def[symmetric] u_def[symmetric] n_def[symmetric] .
  then have near: "\<bar>of_int G - x\<bar> \<le> 2 powi (e - 24)" unfolding nu .
  have "(2::rat) powi (e - 24) = 2 powi e / 2 ^ 24" by (simp add: power_int_diff)
  also have "\<dots> \<le> \<bar>x\<bar> / 2 ^ 24" using elo by (intro divide_right_mono) simp_all
  finally have rel: "\<bar>of_int G - x\<bar> \<le> \<bar>x\<bar> / 2 ^ 24" using near by simp
  define g :: rat where "g = of_int G"
  define d :: rat where "d = \<bar>x\<bar> / 2 ^ 24"
  have dx: "16777216 * d = \<bar>x\<bar>" unfolding d_def by simp
  have xb: "16777216 \<le> \<bar>x\<bar>" "\<bar>x\<bar> \<le> 2147483648" using xbig xs by simp_all
  have "\<bar>g - x\<bar> \<le> d" using rel unfolding g_def d_def .
  then have gd: "g - x \<le> d" "x - g \<le> d" by linarith+
  have gpos: "16777215 \<le> g" "g \<le> 4294967296" if "0 < x"
    using that gd dx xb by linarith+
  have gneg: "g \<le> - 16777215" "- 4294967296 \<le> g" if "x < 0"
    using that gd dx xb by linarith+
  have sign: "0 < G \<longleftrightarrow> 0 < F"
  proof
    assume "0 < G"
    then have "0 < g" unfolding g_def by simp
    then have "\<not> x < 0" using gneg(1) by linarith
    then show "0 < F" using x0 unfolding x_def by simp
  next
    assume "0 < F"
    then have "0 < x" unfolding x_def by simp
    then have "0 < g" using gpos(1) by linarith
    then show "0 < G" unfolding g_def by simp
  qed
  have Gbig: "2 ^ 24 - 1 \<le> \<bar>G\<bar>"
  proof -
    have "(16777215 :: rat) \<le> \<bar>g\<bar>"
      using gpos(1) gneg(1) x0 by (cases "0 < x") linarith+
    then have "(of_int 16777215 :: rat) \<le> of_int \<bar>G\<bar>" unfolding g_def by simp
    then have "16777215 \<le> \<bar>G\<bar>" by (simp only: of_int_le_iff)
    then show ?thesis by simp
  qed
  have Gs: "\<bar>G\<bar> \<le> 2 ^ 32"
  proof -
    have "\<bar>g\<bar> \<le> 4294967296"
      using gpos gneg x0 by (cases "0 < x") linarith+
    then have "(of_int \<bar>G\<bar> :: rat) \<le> of_int 4294967296" unfolding g_def by simp
    then have "\<bar>G\<bar> \<le> 4294967296" by (simp only: of_int_le_iff)
    then show ?thesis by simp
  qed
  have G0: "G \<noteq> 0" using Gbig by auto
  have BG: "\<bar>B\<bar> \<le> \<bar>G\<bar>" using Bs Gbig by simp
  have BF: "\<bar>B\<bar> \<le> \<bar>F\<bar>" using Bs Fbig by simp
  have unit: "\<lceil>(of_int B :: rat) / of_int H / 8\<rceil> = (if 0 < B \<longleftrightarrow> 0 < H then 1 else 0)"
    if H0: "H \<noteq> 0" and BH: "\<bar>B\<bar> \<le> \<bar>H\<bar>" for H :: int
  proof -
    define t :: rat where "t = of_int B / of_int H"
    have "(of_int \<bar>B\<bar> :: rat) \<le> of_int \<bar>H\<bar>" using BH by (simp only: of_int_le_iff)
    then have "\<bar>of_int B :: rat\<bar> \<le> \<bar>of_int H\<bar>" by simp
    moreover have "0 < \<bar>of_int H :: rat\<bar>" using H0 by simp
    ultimately have "\<bar>of_int B :: rat\<bar> / \<bar>of_int H\<bar> \<le> 1" by simp
    then have t1: "\<bar>t\<bar> \<le> 1" unfolding t_def by simp
    have t0: "t \<noteq> 0" unfolding t_def using B0 H0 by simp
    have tpos: "0 < t \<longleftrightarrow> (0 < B \<longleftrightarrow> 0 < H)"
      unfolding t_def using B0 H0 by (auto simp add: zero_less_divide_iff)
    show ?thesis
    proof (cases "0 < t")
      case True
      then have "0 < t / 8" "t / 8 \<le> 1" using t1 by simp_all
      then have "\<lceil>t / 8\<rceil> = 1" by (simp add: ceiling_eq_iff)
      then show ?thesis using True tpos unfolding t_def by simp
    next
      case False
      then have "- 1 < t / 8" "t / 8 \<le> 0" using t1 t0 by simp_all
      then have "\<lceil>t / 8\<rceil> = 0" by (simp add: ceiling_eq_iff)
      then show ?thesis using False tpos unfolding t_def by simp
    qed
  qed
  have "\<lceil>(of_int B :: rat) / of_int G / 8\<rceil> = \<lceil>(of_int B :: rat) / of_int F / 8\<rceil>"
    unfolding unit[OF G0 BG] unit[OF F0 BF] sign ..
  then have "\<lceil>(of_int B :: rat) / of_int G / 8\<rceil> = \<lceil>(of_int B :: rat) / (of_int F * 8)\<rceil>"
    by simp
  then show ?thesis
    using round G0 Gs unfolding float_of_int_def x_def by blast
qed

text \<open>Values with at most 24 significant bits stay as they are, and so do their eighths.\<close>

lemma float_round_dyadic:
  fixes n :: int and k :: nat
  assumes "\<bar>n\<bar> \<le> 2 ^ 24" and "k \<le> 100"
  shows "float_round (of_int n / 2 ^ k) = Finite (of_int n / 2 ^ k)"
proof (cases "n = 0")
  case True
  then show ?thesis by (simp add: float_round_def)
next
  case False
  then show ?thesis using assms by (rule float_round_exact_le)
qed

text \<open>
  One frame per packet: the bytes per packet are an eighth of the rounded quotient,
  whose ceiling is that of the quotient itself.
\<close>

lemma PacketSize_bytes_per_packet_one_frame:
  assumes B: "LyraDecoder_bitrate api decoder = B"
    and F: "LyraDecoder_frame_rate api decoder = F"
    and K: "kNumFramesPerPacket cfg = 1"
    and B0: "B \<noteq> 0" and Bs: "\<bar>B\<bar> < 2 ^ 24" and F0: "F \<noteq> 0" and Fs: "\<bar>F\<bar> \<le> 2 ^ 31"
  shows "\<exists>v. PacketSize_bytes_per_packet cfg api decoder = Finite v \<and>
           \<lceil>v\<rceil> = \<lceil>(of_int B :: rat) / (of_int F * 8)\<rceil>"
proof -
  from float_of_int_divisor[OF B0 Bs F0 Fs] obtain G :: int where
    fF: "float_of_int F = Finite (of_int G)" and G0: "G \<noteq> 0" and Gs: "\<bar>G\<bar> \<le> 2 ^ 32" and
    ceq: "\<lceil>(of_int B :: rat) / of_int G / 8\<rceil> = \<lceil>(of_int B :: rat) / (of_int F * 8)\<rceil>"
    by blast
  define x :: rat where "x = of_int B / of_int G"
  from float_round_quotient[OF B0 G0 Bs Gs] obtain n :: int and k :: nat where
    rq: "float_round x = Finite (of_int n / 2 ^ k)" and ns: "\<bar>n\<bar> \<le> 2 ^ 24" and ks: "k \<le> 60" and
    across: "\<forall>N::int. (of_int N < x \<longrightarrow> of_int N < (of_int n / 2 ^ k :: rat)) \<and>
                       (x \<le> of_int N \<longrightarrow> (of_int n / 2 ^ k :: rat) \<le> of_int N)"
    unfolding x_def by blast
  define q :: rat where "q = of_int n / 2 ^ k"
  have fB: "float_of_int B = Finite (of_int B)" using Bs by (rule float_of_int_exact)
  have f1: "float_of_int 1 = Finite 1" using float_of_int_exact[of 1] by simp
  have c8: "float_of_int CHAR_BIT = Finite 8"
    using float_of_int_exact[of 8] by (simp add: CHAR_BIT_def)
  have s1: "float_div (float_of_int B) (float_of_int F) = Finite q"
    unfolding fB fF using G0 rq unfolding x_def q_def by simp
  have "float_round q = Finite q"
    unfolding q_def using ns by (rule float_round_dyadic) (use ks in simp)
  then have s2: "float_mul (Finite q) (float_of_int 1) = Finite q" unfolding f1 by simp
  have "q / 8 = of_int n / 2 ^ (k + 3)" unfolding q_def by (simp add: power_add)
  moreover have "float_round (of_int n / 2 ^ (k + 3)) = Finite (of_int n / 2 ^ (k + 3))"
    using ns by (rule float_round_dyadic) (use ks in simp)
  ultimately have "float_round (q / 8) = Finite (q / 8)" by simp
  then have s3: "float_div (Finite q) (float_of_int CHAR_BIT) = Finite (q / 8)"
    unfolding c8 by simp
  have bytes: "PacketSize_bytes_per_packet cfg api decoder = Finite (q / 8)"
    by (simp only: PacketSize_bytes_per_packet_def Let_def B F K s1 s2 s3)
  define h where "h = x / 8"
  define h' where "h' = q / 8"
  have hx: "x = 8 * h" "q = 8 * h'" unfolding h_def h'_def by simp_all
  define c where "c = \<lceil>h\<rceil>"
  have cc: "of_int c - 1 < h" "h \<le> of_int c"
    using ceiling_correct[of h] unfolding c_def by blast+
  have c8s: "(of_int (8 * (c - 1)) :: rat) = 8 * (of_int c - 1)"
    "(of_int (8 * c) :: rat) = 8 * of_int c" by simp_all
  have "of_int (8 * (c - 1)) < x" "x \<le> of_int (8 * c)"
    unfolding c8s hx using cc by simp_all
  then have "of_int (8 * (c - 1)) < q" "q \<le> of_int (8 * c)"
    using across unfolding q_def by blast+
  then have "of_int c - 1 < h'" "h' \<le> of_int c"
    unfolding c8s hx by simp_all
  then have "\<lceil>h'\<rceil> = c" by (rule ceiling_unique)
  then have "\<lceil>q / 8\<rceil> = \<lceil>(of_int B :: rat) / (of_int F * 8)\<rceil>"
    using ceq unfolding c_def h_def h'_def x_def by simp
  with bytes show ?thesis by blast
qed

text \<open>Bit rate zero gives zero bytes, whatever the other two values.\<close>

lemma PacketSize_bytes_per_packet_zero:
  assumes B: "LyraDecoder_bitrate api decoder = 0"
    and F0: "LyraDecoder_frame_rate api decoder \<noteq> 0"
    and Fs: "\<bar>LyraDecoder_frame_rate api decoder\<bar> \<le> 2 ^ 31"
    and Ks: "\<bar>kNumFramesPerPacket cfg\<bar> \<le> 2 ^ 31"
  shows "PacketSize_bytes_per_packet cfg api decoder = Finite 0"
proof -
  from float_of_int_finite[OF Fs] F0 obtain f where
    f: "float_of_int (LyraDecoder_frame_rate api decoder) = Finite f" and f0: "f \<noteq> 0"
    by auto
  from float_of_int_finite[OF Ks] obtain k where
    k: "float_of_int (kNumFramesPerPacket cfg) = Finite k" by blast
  have z: "float_of_int 0 = Finite 0" using float_of_int_exact[of 0] by simp
  have r0: "float_round 0 = Finite 0" by (simp add: float_round_def)
  have c8: "float_of_int CHAR_BIT = Finite 8"
    using float_of_int_exact[of 8] by (simp add: CHAR_BIT_def)
  show ?thesis
    by (simp add: PacketSize_bytes_per_packet_def B f k z c8 f0 r0)
qed

text \<open>
  The frame rate divides the bit rate, and the bits per packet are below \<open>2 ^ 24\<close>:
  every intermediate value is exact.
\<close>

lemma PacketSize_bytes_per_packet_divides:
  assumes B: "LyraDecoder_bitrate api decoder = B"
    and F: "LyraDecoder_frame_rate api decoder = F"
    and K: "kNumFramesPerPacket cfg = K"
    and B0: "B \<noteq> 0" and Bs: "\<bar>B\<bar> < 2 ^ 24" and F0: "F \<noteq> 0"
    and dvd: "F dvd B" and bits: "\<bar>B div F * K\<bar> < 2 ^ 24"
  shows "PacketSize_bytes_per_packet cfg api decoder = Finite (of_int (B div F * K) / 8)"
proof -
  define q where "q = B div F"
  have Bq: "B = q * F" using dvd unfolding q_def by simp
  have q0: "q \<noteq> 0" using B0 Bq by auto
  have quot: "(of_int B :: rat) / of_int F = of_int q" using F0 unfolding Bq by simp
  have "1 \<le> \<bar>F\<bar>" using F0 by simp
  then have "\<bar>q\<bar> * 1 \<le> \<bar>q\<bar> * \<bar>F\<bar>" by (intro mult_left_mono) simp_all
  then have qB: "\<bar>q\<bar> \<le> \<bar>B\<bar>" unfolding Bq by (simp add: abs_mult)
  then have qs: "\<bar>q\<bar> < 2 ^ 24" using Bs by simp
  have "1 \<le> \<bar>q\<bar>" using q0 by simp
  then have "1 * \<bar>F\<bar> \<le> \<bar>q\<bar> * \<bar>F\<bar>" by (intro mult_right_mono) simp_all
  then have "\<bar>F\<bar> \<le> \<bar>B\<bar>" unfolding Bq by (simp add: abs_mult)
  then have Fs: "\<bar>F\<bar> < 2 ^ 24" using Bs by simp
  have qK: "\<bar>q * K\<bar> < 2 ^ 24" using bits unfolding q_def .
  have "1 * \<bar>K\<bar> \<le> \<bar>q\<bar> * \<bar>K\<bar>" using \<open>1 \<le> \<bar>q\<bar>\<close> by (intro mult_right_mono) simp_all
  then have "\<bar>K\<bar> \<le> \<bar>q * K\<bar>" by (simp add: abs_mult)
  then have Ks: "\<bar>K\<bar> < 2 ^ 24" using qK by simp
  have rq: "float_round (of_int q) = Finite (of_int q)"
    using float_of_int_exact[OF qs] unfolding float_of_int_def .
  have rqk: "float_round (of_int (q * K)) = Finite (of_int (q * K))"
    using float_of_int_exact[OF qK] unfolding float_of_int_def .
  have s1: "float_div (float_of_int B) (float_of_int F) = Finite (of_int q)"
    using F0
    by (simp add: float_of_int_exact[OF Bs] float_of_int_exact[OF Fs] quot rq)
  have s2: "float_mul (Finite (of_int q)) (float_of_int K) = Finite (of_int (q * K))"
    using rqk by (simp add: float_of_int_exact[OF Ks])
  have c8: "float_of_int CHAR_BIT = Finite 8"
    using float_of_int_exact[of 8] by (simp add: CHAR_BIT_def)
  have s3: "float_round (of_int (q * K) / 8) = Finite (of_int (q * K) / 8)"
    using qK by (rule float_eighth_exact)
  show ?thesis
    unfolding q_def[symmetric]
    by (simp add: PacketSize_bytes_per_packet_def B F K s1 s2 c8 s3 del: of_int_mult)
qed

lemma exact_bytes_divides:
  fixes B F K :: int
  assumes "F \<noteq> 0" and "F dvd B"
  shows "(of_int (B * K) :: rat) / of_int (F * 8) = of_int (B div F * K) / 8"
proof -
  from assms(2) obtain q where Bq: "B = F * q" by (rule dvdE)
  have "B div F = q" unfolding Bq using assms(1) by simp
  then show ?thesis using assms(1) unfolding Bq by simp
qed

section \<open>The encoder claims\<close>

text \<open>
  C2.  When the chunked buffer has \<open>m * n + r\<close> samples with \<open>r < n\<close>, where \<open>n\<close> is the
  number of samples per packet, and the engine encodes every window of \<open>n\<close> samples
  into a packet of \<open>kNumFeatures\<close> values, \<open>EncodeWav\<close> feeds the engine exactly the \<open>m\<close>
  windows of \<open>n\<close> samples that start at indices \<open>0, n, 2n, \<dots>\<close>, in this order, appends
  their \<open>m * kNumFeatures\<close> values to the accumulator and returns \<open>true\<close>; the last \<open>r\<close>
  samples are in no window.  The index arithmetic is on \<open>int\<close>: the end of the window
  after the last one, \<open>m * n + n\<close>, has to be at most \<open>INT_MAX\<close>.
\<close>

theorem EncodeWav_whole_windows:
  assumes create: "LyraEncoder_Create api sample_rate_hz num_channels (kBitrate cfg) enable_dtx
                     model_path = Some encoder"
    and spp: "EncodeWav_num_samples_per_packet cfg sample_rate_hz
                (LyraEncoder_frame_rate api encoder) = Inr (int n)"
    and len: "length (EncodeWav_processed_data Process wav_data sample_rate_hz
                enable_preprocessing) = m * n + r"
    and r: "r < n"
    and range: "int (m * n + n) \<le> INT_MAX"
    and succeeds: "encoder_always_succeeds api n"
    and sized: "encoder_packets_sized cfg api"
  shows "\<exists>packets encoder'.
      encode_windows (LyraEncoder_EncodeRaw api) encoder
        (strides n 0 m (EncodeWav_processed_data Process wav_data sample_rate_hz
           enable_preprocessing)) = (True, packets, encoder') \<and>
      length (strides n 0 m (EncodeWav_processed_data Process wav_data sample_rate_hz
           enable_preprocessing)) = m \<and>
      (\<forall>w \<in> set (strides n 0 m (EncodeWav_processed_data Process wav_data sample_rate_hz
           enable_preprocessing)). length w = n) \<and>
      EncodeWav_loop (LyraEncoder_EncodeRaw api) (int n)
        (EncodeWav_processed_data Process wav_data sample_rate_hz enable_preprocessing)
        0 encoder encoded_raw_features =
        Some (Inr (True, encoded_raw_features @ packets, encoder')) \<and>
      EncodeWav cfg api Process wav_data num_channels sample_rate_hz enable_preprocessing
        enable_dtx model_path encoded_raw_features =
        ([EngineCreate], Some (Inr (True, encoded_raw_features @ packets))) \<and>
      int (length packets) = int m * kNumFeatures cfg"
proof -
  let ?xs = "EncodeWav_processed_data Process wav_data sample_rate_hz enable_preprocessing"
  let ?enc = "LyraEncoder_EncodeRaw api"
  have mn: "m * n \<le> length ?xs" using len by simp
  have wl: "\<forall>w \<in> set (strides n 0 m ?xs). length w = n"
    using strides_window_length[OF mn] by blast
  from EncodeWav_loop_success[OF len r range succeeds, of encoder encoded_raw_features]
  obtain packets encoder' where
    run: "encode_windows ?enc encoder (strides n 0 m ?xs) = (True, packets, encoder')" and
    loop: "EncodeWav_loop ?enc (int n) ?xs 0 encoder encoded_raw_features =
             Some (Inr (True, encoded_raw_features @ packets, encoder'))"
    by blast
  have whole: "EncodeWav cfg api Process wav_data num_channels sample_rate_hz
      enable_preprocessing enable_dtx model_path encoded_raw_features =
      ([EngineCreate], Some (Inr (True, encoded_raw_features @ packets)))"
    using create spp loop by (rule EncodeWav_unfold)
  have "int (length packets) = int (length (strides n 0 m ?xs)) * kNumFeatures cfg"
    using sized run by (rule encode_windows_length)
  then have cnt: "int (length packets) = int m * kNumFeatures cfg" by simp
  show ?thesis using run wl loop whole cnt by (intro exI conjI) simp_all
qed

theorem EncodeWav_whole_windows_witness:
  "LyraEncoder_Create (counting_encoder None) 150 1 (kBitrate example_config) False ''model''
     = Some 0 \<and>
   EncodeWav_num_samples_per_packet example_config 150
     (LyraEncoder_frame_rate (counting_encoder None) 0) = Inr (int 3) \<and>
   length (EncodeWav_processed_data no_preprocessing [1, 2, 3, 4, 5, 6, 7] 150 False)
     = 2 * 3 + 1 \<and>
   (1::nat) < 3 \<and>
   int (2 * 3 + 3) \<le> INT_MAX \<and>
   encoder_always_succeeds (counting_encoder None) 3 \<and>
   encoder_packets_sized example_config (counting_encoder None) \<and>
   EncodeWav example_config (counting_encoder None) no_preprocessing [1, 2, 3, 4, 5, 6, 7]
     1 150 False False ''model'' [9] = ([EngineCreate], Some (Inr (True, [9, 0, 3, 1, 3])))"
proof -
  have h1: "LyraEncoder_Create (counting_encoder None) 150 1 (kBitrate example_config) False
              ''model'' = Some 0"
    by (simp add: counting_encoder_def)
  have h2: "EncodeWav_num_samples_per_packet example_config 150
              (LyraEncoder_frame_rate (counting_encoder None) 0) = Inr (int 3)"
    using example_sizes(1) by (simp add: counting_encoder_def)
  have h3: "length (EncodeWav_processed_data no_preprocessing [1, 2, 3, 4, 5, 6, 7] 150 False)
              = 2 * 3 + 1"
    by (simp add: EncodeWav_processed_data_def)
  have h4: "(1::nat) < 3" by simp
  have h5: "int (2 * 3 + 3) \<le> INT_MAX" by (simp add: INT_MAX_def)
  note h6 = counting_encoder_contract(1)[of 3]
  note h7 = counting_encoder_contract(2)[of None]
  have run: "encode_windows (LyraEncoder_EncodeRaw (counting_encoder None)) 0
               (strides 3 0 2 (EncodeWav_processed_data no_preprocessing
                  [1, 2, 3, 4, 5, 6, 7] 150 False)) = (True, [0, 3, 1, 3], 2)"
    by (simp add: strides_def EncodeWav_processed_data_def counting_encoder_def
          upt_conv_Cons numeral_2_eq_2)
  from EncodeWav_whole_windows[OF h1 h2 h3 h4 h5 h6 h7, where encoded_raw_features = "[9]"] run
  have "EncodeWav example_config (counting_encoder None) no_preprocessing
          [1, 2, 3, 4, 5, 6, 7] 1 150 False False ''model'' [9] =
          ([EngineCreate], Some (Inr (True, [9, 0, 3, 1, 3])))"
    by auto
  with h1 h2 h3 h4 h5 h6 h7 show ?thesis by blast
qed

text \<open>
  C3.  When the engine encodes windows \<open>0, \<dots>, j - 1\<close> and does not encode window \<open>j\<close>,
  \<open>EncodeWav\<close> returns \<open>false\<close>; the accumulator has grown by the packets of the first
  \<open>j\<close> windows, \<open>j * kNumFeatures\<close> values, and the encoder is left as the failing call
  left it: no later window is given to it.
\<close>

theorem EncodeWav_stops_at_failure:
  assumes create: "LyraEncoder_Create api sample_rate_hz num_channels (kBitrate cfg) enable_dtx
                     model_path = Some encoder"
    and spp: "EncodeWav_num_samples_per_packet cfg sample_rate_hz
                (LyraEncoder_frame_rate api encoder) = Inr (int n)"
    and n: "0 < n"
    and fits: "j * n + n \<le> length (EncodeWav_processed_data Process wav_data sample_rate_hz
                enable_preprocessing)"
    and range: "int (length (EncodeWav_processed_data Process wav_data sample_rate_hz
                enable_preprocessing)) \<le> INT_MAX"
    and first: "encode_windows (LyraEncoder_EncodeRaw api) encoder
                  (strides n 0 j (EncodeWav_processed_data Process wav_data sample_rate_hz
                     enable_preprocessing)) = (True, packets, encoder_j)"
    and fails: "LyraEncoder_EncodeRaw api encoder_j
                  (take n (drop (j * n) (EncodeWav_processed_data Process wav_data
                     sample_rate_hz enable_preprocessing))) = (None, encoder_f)"
    and sized: "encoder_packets_sized cfg api"
  shows "EncodeWav cfg api Process wav_data num_channels sample_rate_hz enable_preprocessing
           enable_dtx model_path encoded_raw_features =
           ([EngineCreate], Some (Inr (False, encoded_raw_features @ packets))) \<and>
         EncodeWav_loop (LyraEncoder_EncodeRaw api) (int n)
           (EncodeWav_processed_data Process wav_data sample_rate_hz enable_preprocessing)
           0 encoder encoded_raw_features =
           Some (Inr (False, encoded_raw_features @ packets, encoder_f)) \<and>
         int (length packets) = int j * kNumFeatures cfg"
proof -
  let ?xs = "EncodeWav_processed_data Process wav_data sample_rate_hz enable_preprocessing"
  let ?enc = "LyraEncoder_EncodeRaw api"
  have loop: "EncodeWav_loop ?enc (int n) ?xs 0 encoder encoded_raw_features =
      Some (Inr (False, encoded_raw_features @ packets, encoder_f))"
    using n fits range first fails by (rule EncodeWav_loop_failure)
  have whole: "EncodeWav cfg api Process wav_data num_channels sample_rate_hz
      enable_preprocessing enable_dtx model_path encoded_raw_features =
      ([EngineCreate], Some (Inr (False, encoded_raw_features @ packets)))"
    using create spp loop by (rule EncodeWav_unfold)
  have "int (length packets) = int (length (strides n 0 j ?xs)) * kNumFeatures cfg"
    using sized first by (rule encode_windows_length)
  then have cnt: "int (length packets) = int j * kNumFeatures cfg" by simp
  show ?thesis using loop whole cnt by simp
qed

theorem EncodeWav_stops_at_failure_witness:
  "LyraEncoder_Create (counting_encoder (Some 1)) 150 1 (kBitrate example_config) False
     ''model'' = Some 0 \<and>
   EncodeWav_num_samples_per_packet example_config 150
     (LyraEncoder_frame_rate (counting_encoder (Some 1)) 0) = Inr (int 3) \<and>
   (0::nat) < 3 \<and>
   1 * 3 + 3 \<le> length (EncodeWav_processed_data no_preprocessing
                         [1, 2, 3, 4, 5, 6, 7, 8, 9, 10] 150 False) \<and>
   int (length (EncodeWav_processed_data no_preprocessing
                  [1, 2, 3, 4, 5, 6, 7, 8, 9, 10] 150 False)) \<le> INT_MAX \<and>
   encode_windows (LyraEncoder_EncodeRaw (counting_encoder (Some 1))) 0
     (strides 3 0 1 (EncodeWav_processed_data no_preprocessing
                       [1, 2, 3, 4, 5, 6, 7, 8, 9, 10] 150 False)) = (True, [0, 3], 1) \<and>
   LyraEncoder_EncodeRaw (counting_encoder (Some 1)) 1
     (take 3 (drop (1 * 3) (EncodeWav_processed_data no_preprocessing
                              [1, 2, 3, 4, 5, 6, 7, 8, 9, 10] 150 False))) = (None, 2) \<and>
   encoder_packets_sized example_config (counting_encoder (Some 1)) \<and>
   EncodeWav example_config (counting_encoder (Some 1)) no_preprocessing
     [1, 2, 3, 4, 5, 6, 7, 8, 9, 10] 1 150 False False ''model'' [9] =
     ([EngineCreate], Some (Inr (False, [9, 0, 3]))) \<and>
   EncodeWav_loop (LyraEncoder_EncodeRaw (counting_encoder (Some 1))) (int 3)
     (EncodeWav_processed_data no_preprocessing [1, 2, 3, 4, 5, 6, 7, 8, 9, 10] 150 False)
     0 0 [9] = Some (Inr (False, [9, 0, 3], 2))"
proof -
  let ?xs = "EncodeWav_processed_data no_preprocessing [1, 2, 3, 4, 5, 6, 7, 8, 9, 10] 150 False"
  have h1: "LyraEncoder_Create (counting_encoder (Some 1)) 150 1 (kBitrate example_config)
              False ''model'' = Some 0"
    by (simp add: counting_encoder_def)
  have h2: "EncodeWav_num_samples_per_packet example_config 150
              (LyraEncoder_frame_rate (counting_encoder (Some 1)) 0) = Inr (int 3)"
    using example_sizes(1) by (simp add: counting_encoder_def)
  have h3: "(0::nat) < 3" by simp
  have h4: "1 * 3 + 3 \<le> length ?xs" by (simp add: EncodeWav_processed_data_def)
  have h5: "int (length ?xs) \<le> INT_MAX"
    by (simp add: EncodeWav_processed_data_def INT_MAX_def)
  have h6: "encode_windows (LyraEncoder_EncodeRaw (counting_encoder (Some 1))) 0
              (strides 3 0 1 ?xs) = (True, [0, 3], 1)"
    by (simp add: strides_def EncodeWav_processed_data_def counting_encoder_def)
  have h7: "LyraEncoder_EncodeRaw (counting_encoder (Some 1)) 1
              (take 3 (drop (1 * 3) ?xs)) = (None, 2)"
    by (simp add: counting_encoder_def)
  note h8 = counting_encoder_contract(2)[of "Some 1"]
  from EncodeWav_stops_at_failure[OF h1 h2 h3 h4 h5 h6 h7 h8, where encoded_raw_features = "[9]"]
  have "EncodeWav example_config (counting_encoder (Some 1)) no_preprocessing
          [1, 2, 3, 4, 5, 6, 7, 8, 9, 10] 1 150 False False ''model'' [9] =
          ([EngineCreate], Some (Inr (False, [9, 0, 3]))) \<and>
        EncodeWav_loop (LyraEncoder_EncodeRaw (counting_encoder (Some 1))) (int 3) ?xs
          0 0 [9] = Some (Inr (False, [9, 0, 3], 2))"
    by simp
  with h1 h2 h3 h4 h5 h6 h7 h8 show ?thesis by blast
qed

section \<open>The decoder claims\<close>

text \<open>
  C4.  For a feature vector of \<open>m\<close> whole packets of \<open>kNumFeatures\<close> values and a decoder
  whose \<open>DecodeSamples\<close> gives as many samples as it is asked for: if the decoder accepts
  every packet and decodes after each, \<open>DecodeFeatures\<close> hands it exactly the \<open>m\<close> packets
  that start at indices \<open>0, kNumFeatures, \<dots>\<close>, in this order, appends the
  \<open>m * num_samples_per_packet\<close> samples and returns \<open>true\<close>; if packets \<open>0, \<dots>, j - 1\<close>
  are decoded and packet \<open>j\<close> is rejected or gives no samples, it returns \<open>false\<close> at
  once, with the \<open>j * num_samples_per_packet\<close> samples of the packets before.
\<close>

theorem DecodeFeatures_mirrors_EncodeWav:
  assumes width: "kNumFeatures cfg = int K" and K: "0 < K"
    and spp: "DecodeFeatures_num_samples_per_packet cfg
                (LyraDecoder_sample_rate_hz api decoder) = Inr count"
    and len: "length features = m * K"
    and range: "int (length features) \<le> INT_MAX"
    and sized: "decoder_samples_sized api count"
  shows "(decoder_always_succeeds api K count \<longrightarrow>
           (\<exists>decoded decoder'.
              decode_packets (LyraDecoder_SetEncodedFeatures api)
                (LyraDecoder_DecodeSamples api) count decoder (strides K 0 m features) =
                (True, decoded, decoder') \<and>
              length (strides K 0 m features) = m \<and>
              (\<forall>p \<in> set (strides K 0 m features). length p = K) \<and>
              DecodeFeatures cfg api features packet_loss_rate average_burst_length decoder
                decoded_audio = Some (Inr (True, decoded_audio @ decoded, decoder')) \<and>
              int (length decoded) = int m * count)) \<and>
         (j < m \<and>
          decode_packets (LyraDecoder_SetEncodedFeatures api) (LyraDecoder_DecodeSamples api)
            count decoder (strides K 0 j features) = (True, decoded_j, decoder_j) \<and>
          (LyraDecoder_SetEncodedFeatures api decoder_j (take K (drop (j * K) features)) =
             (False, decoder_f) \<or>
           (\<exists>d. LyraDecoder_SetEncodedFeatures api decoder_j
                   (take K (drop (j * K) features)) = (True, d) \<and>
                LyraDecoder_DecodeSamples api d count = (None, decoder_f))) \<longrightarrow>
            DecodeFeatures cfg api features packet_loss_rate average_burst_length decoder
              decoded_audio = Some (Inr (False, decoded_audio @ decoded_j, decoder_f)) \<and>
            int (length decoded_j) = int j * count)"
proof (intro conjI impI)
  let ?S = "LyraDecoder_SetEncodedFeatures api"
  let ?D = "LyraDecoder_DecodeSamples api"
  assume succeeds: "decoder_always_succeeds api K count"
  have mK: "m * K \<le> length features" using len by simp
  have pl: "\<forall>p \<in> set (strides K 0 m features). length p = K"
    using strides_window_length[OF mK] by blast
  from DecodeFeatures_loop_success[OF len K range succeeds, of decoder decoded_audio]
  obtain decoded decoder' where
    run: "decode_packets ?S ?D count decoder (strides K 0 m features) =
            (True, decoded, decoder')" and
    loop: "DecodeFeatures_loop (int K) ?S ?D count features 0 decoder decoded_audio =
             Some (Inr (True, decoded_audio @ decoded, decoder'))"
    by blast
  have whole: "DecodeFeatures cfg api features packet_loss_rate average_burst_length decoder
      decoded_audio = Some (Inr (True, decoded_audio @ decoded, decoder'))"
    unfolding DecodeFeatures_unfold[OF spp] width using loop .
  have "int (length decoded) = int (length (strides K 0 m features)) * count"
    using sized run by (rule decode_packets_length)
  then have cnt: "int (length decoded) = int m * count" by simp
  show "\<exists>decoded decoder'.
      decode_packets ?S ?D count decoder (strides K 0 m features) = (True, decoded, decoder') \<and>
      length (strides K 0 m features) = m \<and>
      (\<forall>p \<in> set (strides K 0 m features). length p = K) \<and>
      DecodeFeatures cfg api features packet_loss_rate average_burst_length decoder
        decoded_audio = Some (Inr (True, decoded_audio @ decoded, decoder')) \<and>
      int (length decoded) = int m * count"
    using run pl whole cnt by (intro exI conjI) simp_all
next
  let ?S = "LyraDecoder_SetEncodedFeatures api"
  let ?D = "LyraDecoder_DecodeSamples api"
  assume a: "j < m \<and>
    decode_packets ?S ?D count decoder (strides K 0 j features) = (True, decoded_j, decoder_j) \<and>
    (?S decoder_j (take K (drop (j * K) features)) = (False, decoder_f) \<or>
     (\<exists>d. ?S decoder_j (take K (drop (j * K) features)) = (True, d) \<and>
          ?D d count = (None, decoder_f)))"
  then have j: "j < m"
    and first: "decode_packets ?S ?D count decoder (strides K 0 j features) =
                  (True, decoded_j, decoder_j)"
    and fails: "?S decoder_j (take K (drop (j * K) features)) = (False, decoder_f) \<or>
       (\<exists>d. ?S decoder_j (take K (drop (j * K) features)) = (True, d) \<and>
            ?D d count = (None, decoder_f))"
    by blast+
  have "Suc j * K \<le> m * K" using j by (intro mult_le_mono1) simp
  then have fits: "j * K + K \<le> length features" using len by (simp add: add.commute)
  have loop: "DecodeFeatures_loop (int K) ?S ?D count features 0 decoder decoded_audio =
      Some (Inr (False, decoded_audio @ decoded_j, decoder_f))"
    using K fits range first fails by (rule DecodeFeatures_loop_failure)
  show "DecodeFeatures cfg api features packet_loss_rate average_burst_length decoder
      decoded_audio = Some (Inr (False, decoded_audio @ decoded_j, decoder_f))"
    unfolding DecodeFeatures_unfold[OF spp] width using loop .
  have "int (length decoded_j) = int (length (strides K 0 j features)) * count"
    using sized first by (rule decode_packets_length)
  then show "int (length decoded_j) = int j * count" by simp
qed

theorem DecodeFeatures_mirrors_EncodeWav_witness:
  "kNumFeatures example_config = int 2 \<and> (0::nat) < 2 \<and>
   DecodeFeatures_num_samples_per_packet example_config
     (LyraDecoder_sample_rate_hz (counting_decoder None None) 0) = Inr 3 \<and>
   DecodeFeatures_num_samples_per_packet example_config
     (LyraDecoder_sample_rate_hz (counting_decoder None (Some 1)) 0) = Inr 3 \<and>
   length [0, 3, 1, 3 :: int] = 2 * 2 \<and>
   int (length [0, 3, 1, 3 :: int]) \<le> INT_MAX \<and>
   decoder_samples_sized (counting_decoder None None) 3 \<and>
   decoder_samples_sized (counting_decoder None (Some 1)) 3 \<and>
   decoder_always_succeeds (counting_decoder None None) 2 3 \<and>
   DecodeFeatures example_config (counting_decoder None None) [0, 3, 1, 3] (0::int) 0 0 [7]
     = Some (Inr (True, [7, 0, 0, 0, 1, 1, 1], 2)) \<and>
   (1::nat) < 2 \<and>
   decode_packets (LyraDecoder_SetEncodedFeatures (counting_decoder None (Some 1)))
     (LyraDecoder_DecodeSamples (counting_decoder None (Some 1))) 3 0
     (strides 2 0 1 [0, 3, 1, 3]) = (True, [0, 0, 0], 1) \<and>
   LyraDecoder_SetEncodedFeatures (counting_decoder None (Some 1)) 1
     (take 2 (drop (1 * 2) [0, 3, 1, 3])) = (True, 1) \<and>
   LyraDecoder_DecodeSamples (counting_decoder None (Some 1)) 1 3 = (None, 2) \<and>
   DecodeFeatures example_config (counting_decoder None (Some 1)) [0, 3, 1, 3] (0::int) 0 0 [7]
     = Some (Inr (False, [7, 0, 0, 0], 2))"
proof -
  let ?ok = "counting_decoder None None"
  let ?bad = "counting_decoder None (Some 1)"
  have h1: "kNumFeatures example_config = int 2" by (simp add: example_config_def)
  have h2: "(0::nat) < 2" by simp
  have h3: "DecodeFeatures_num_samples_per_packet example_config
              (LyraDecoder_sample_rate_hz ?ok 0) = Inr 3"
    using example_sizes(2) by (simp add: counting_decoder_def)
  have h3': "DecodeFeatures_num_samples_per_packet example_config
              (LyraDecoder_sample_rate_hz ?bad 0) = Inr 3"
    using example_sizes(2) by (simp add: counting_decoder_def)
  have h4: "length [0, 3, 1, 3 :: int] = 2 * 2" by simp
  have h5: "int (length [0, 3, 1, 3 :: int]) \<le> INT_MAX" by (simp add: INT_MAX_def)
  have h6: "decoder_samples_sized ?ok 3" by (rule counting_decoder_contract(2)) simp
  have h6': "decoder_samples_sized ?bad 3" by (rule counting_decoder_contract(2)) simp
  note h7 = counting_decoder_contract(1)[of 2 3]
  have run: "decode_packets (LyraDecoder_SetEncodedFeatures ?ok)
               (LyraDecoder_DecodeSamples ?ok) 3 0 (strides 2 0 2 [0, 3, 1, 3]) =
               (True, [0, 0, 0, 1, 1, 1], 2)"
    by (simp add: strides_def counting_decoder_def upt_conv_Cons numeral_2_eq_2
          numeral_3_eq_3)
  have h8: "(1::nat) < 2" by simp
  have h9: "decode_packets (LyraDecoder_SetEncodedFeatures ?bad)
              (LyraDecoder_DecodeSamples ?bad) 3 0 (strides 2 0 1 [0, 3, 1, 3]) =
              (True, [0, 0, 0], 1)"
    by (simp add: strides_def counting_decoder_def numeral_3_eq_3)
  have h10: "LyraDecoder_SetEncodedFeatures ?bad 1 (take 2 (drop (1 * 2) [0, 3, 1, 3])) =
               (True, 1)"
    by (simp add: counting_decoder_def)
  have h11: "LyraDecoder_DecodeSamples ?bad 1 3 = (None, 2)"
    by (simp add: counting_decoder_def)
  have good: "DecodeFeatures example_config ?ok [0, 3, 1, 3] (0::int) 0 0 [7] =
      Some (Inr (True, [7, 0, 0, 0, 1, 1, 1], 2))"
    using DecodeFeatures_mirrors_EncodeWav[OF h1 h2 h3 h4 h5 h6,
            where decoded_audio = "[7]" and packet_loss_rate = "0::int"
              and average_burst_length = "0::int"] h7 run
    by auto
  have bad: "DecodeFeatures example_config ?bad [0, 3, 1, 3] (0::int) 0 0 [7] =
      Some (Inr (False, [7, 0, 0, 0], 2))"
    using DecodeFeatures_mirrors_EncodeWav[OF h1 h2 h3' h4 h5 h6',
            where decoded_audio = "[7]" and packet_loss_rate = "0::int"
              and average_burst_length = "0::int" and j = 1 and decoded_j = "[0, 0, 0]"
              and decoder_j = 1 and decoder_f = 2] h8 h9 h10 h11
    by auto
  from h1 h2 h3 h3' h4 h5 h6 h6' h7 good h8 h9 h10 h11 bad show ?thesis by blast
qed

text \<open>
  C9.  \<open>DecodeFeatures\<close> does not look at its packet-loss rate and average burst
  length: two calls that differ only in them give the same result.
\<close>

theorem DecodeFeatures_ignores_loss_parameters:
  "DecodeFeatures cfg api features packet_loss_rate average_burst_length decoder
     decoded_audio =
   DecodeFeatures cfg api features packet_loss_rate' average_burst_length' decoder
     decoded_audio"
  by (simp add: DecodeFeatures_def)

text \<open>
  C10.  A call of \<open>EncodeWav\<close> or \<open>DecodeFeatures\<close> that returns leaves the values that
  were in the accumulator where they were: the accumulator after the call is the
  accumulator before it followed by the new values.
\<close>

theorem accumulators_only_grow:
  "(EncodeWav cfg enc_api Process wav_data num_channels sample_rate_hz enable_preprocessing
      enable_dtx model_path encoded_raw_features = (evs, Some (Inr (ok, features'))) \<longrightarrow>
      (\<exists>new. features' = encoded_raw_features @ new)) \<and>
   (DecodeFeatures cfg dec_api features packet_loss_rate average_burst_length decoder
      decoded_audio = Some (Inr (ok', decoded_audio', decoder')) \<longrightarrow>
      (\<exists>new. decoded_audio' = decoded_audio @ new))"
proof (intro conjI impI)
  assume "EncodeWav cfg enc_api Process wav_data num_channels sample_rate_hz
      enable_preprocessing enable_dtx model_path encoded_raw_features =
      (evs, Some (Inr (ok, features')))"
  then show "\<exists>new. features' = encoded_raw_features @ new"
    by (auto simp: EncodeWav_def split: option.splits sum.splits prod.splits
          dest!: EncodeWav_loop_appends)
next
  assume "DecodeFeatures cfg dec_api features packet_loss_rate average_burst_length decoder
      decoded_audio = Some (Inr (ok', decoded_audio', decoder'))"
  then show "\<exists>new. decoded_audio' = decoded_audio @ new"
    by (auto simp: DecodeFeatures_def split: sum.splits dest!: DecodeFeatures_loop_appends)
qed

lemma example_encode_run:
  "EncodeWav example_config (counting_encoder None) no_preprocessing
     [1, 2, 3, 4, 5, 6, 7] 1 150 False False ''model'' [9] =
     ([EngineCreate], Some (Inr (True, [9, 0, 3, 1, 3])))"
proof -
  let ?enc = "LyraEncoder_EncodeRaw (counting_encoder None)"
  have s0: "EncodeWav_loop ?enc (int 3) [1, 2, 3, 4, 5, 6, 7] (int (0 * 3)) 0 [9] =
              EncodeWav_loop ?enc (int 3) [1, 2, 3, 4, 5, 6, 7] (int (0 * 3 + 3)) 1 [9, 0, 3]"
    by (subst EncodeWav_loop_step) (simp_all add: INT_MAX_def counting_encoder_def)
  have s1: "EncodeWav_loop ?enc (int 3) [1, 2, 3, 4, 5, 6, 7] (int (1 * 3)) 1 [9, 0, 3] =
              EncodeWav_loop ?enc (int 3) [1, 2, 3, 4, 5, 6, 7] (int (1 * 3 + 3)) 2
                [9, 0, 3, 1, 3]"
    by (subst EncodeWav_loop_step)
       (simp_all add: INT_MAX_def counting_encoder_def numeral_2_eq_2)
  have s2: "EncodeWav_loop ?enc (int 3) [1, 2, 3, 4, 5, 6, 7] (int (2 * 3)) 2
              [9, 0, 3, 1, 3] = Some (Inr (True, [9, 0, 3, 1, 3], 2))"
    by (rule EncodeWav_loop_exit) (simp_all add: INT_MAX_def)
  have "EncodeWav_loop ?enc 3 [1, 2, 3, 4, 5, 6, 7] 0 0 [9] =
          Some (Inr (True, [9, 0, 3, 1, 3], 2))"
    using s0 s1 s2 by simp
  then show ?thesis
    using example_sizes(1)
    by (simp add: EncodeWav_def EncodeWav_processed_data_def no_preprocessing_def
          counting_encoder_def)
qed

lemma example_decode_run:
  "DecodeFeatures example_config (counting_decoder None None) [0, 3, 1, 3] (0::int) (0::int)
     0 [7] = Some (Inr (True, [7, 0, 0, 0, 1, 1, 1], 2))"
proof -
  let ?S = "LyraDecoder_SetEncodedFeatures (counting_decoder None None)"
  let ?D = "LyraDecoder_DecodeSamples (counting_decoder None None)"
  have s0: "DecodeFeatures_loop (int 2) ?S ?D 3 [0, 3, 1, 3] (int (0 * 2)) 0 [7] =
              DecodeFeatures_loop (int 2) ?S ?D 3 [0, 3, 1, 3] (int (0 * 2 + 2)) 1
                [7, 0, 0, 0]"
    by (subst DecodeFeatures_loop_step)
       (simp_all add: INT_MAX_def counting_decoder_def numeral_3_eq_3)
  have s1: "DecodeFeatures_loop (int 2) ?S ?D 3 [0, 3, 1, 3] (int (1 * 2)) 1 [7, 0, 0, 0] =
              DecodeFeatures_loop (int 2) ?S ?D 3 [0, 3, 1, 3] (int (1 * 2 + 2)) 2
                [7, 0, 0, 0, 1, 1, 1]"
    by (subst DecodeFeatures_loop_step)
       (simp_all add: INT_MAX_def counting_decoder_def numeral_3_eq_3 numeral_2_eq_2)
  have s2: "DecodeFeatures_loop (int 2) ?S ?D 3 [0, 3, 1, 3] (int (2 * 2)) 2
              [7, 0, 0, 0, 1, 1, 1] = Some (Inr (True, [7, 0, 0, 0, 1, 1, 1], 2))"
    by (rule DecodeFeatures_loop_exit) simp
  have "DecodeFeatures_loop 2 ?S ?D 3 [0, 3, 1, 3] 0 0 [7] =
          Some (Inr (True, [7, 0, 0, 0, 1, 1, 1], 2))"
    using s0 s1 s2 by simp
  then show ?thesis
    using example_sizes(2)
    by (simp add: DecodeFeatures_def counting_decoder_def example_config_def)
qed

theorem accumulators_only_grow_witness:
  "EncodeWav example_config (counting_encoder None) no_preprocessing
     [1, 2, 3, 4, 5, 6, 7] 1 150 False False ''model'' [9] =
     ([EngineCreate], Some (Inr (True, [9, 0, 3, 1, 3]))) \<and>
   (\<exists>new. [9, 0, 3, 1, 3] = [9 :: int] @ new) \<and>
   DecodeFeatures example_config (counting_decoder None None) [0, 3, 1, 3] (0::int) (0::int)
     0 [7] = Some (Inr (True, [7, 0, 0, 0, 1, 1, 1], 2)) \<and>
   (\<exists>new. [7, 0, 0, 0, 1, 1, 1] = [7 :: int16] @ new)"
  using accumulators_only_grow[of example_config "counting_encoder None" no_preprocessing
          "[1, 2, 3, 4, 5, 6, 7]" 1 150 False False "''model''" "[9]" "[EngineCreate]" True
          "[9, 0, 3, 1, 3]" "counting_decoder None None" "[0, 3, 1, 3]" "0::int" "0::int" 0
          "[7]" True "[7, 0, 0, 0, 1, 1, 1]" 2]
        example_encode_run example_decode_run
  by blast

text \<open>
  C1.  A feature vector whose length is not a multiple of \<open>kNumFeatures\<close> is not
  checked: with three values and packets of two, \<open>DecodeFeatures\<close> decodes the first
  packet, enters the loop again at index 2 and hands the decoder a span of two
  values of which only one lies inside the vector.
\<close>

theorem DecodeFeatures_ragged_input:
  "DecodeFeatures example_config (counting_decoder None None) [0, 3, 1] (0::int) (0::int)
     0 [] = Some (Inl SpanPastEnd)"
proof -
  have "DecodeFeatures_loop (int 2)
          (LyraDecoder_SetEncodedFeatures (counting_decoder None None))
          (LyraDecoder_DecodeSamples (counting_decoder None None)) 3 [0, 3, 1] 0 0 [] =
          Some (Inl SpanPastEnd)"
    by (rule DecodeFeatures_loop_ragged[where m = 1 and r = 1])
       (simp_all add: INT_MAX_def counting_decoder_contract(1))
  then show ?thesis
    using example_sizes(2)
    by (simp add: DecodeFeatures_def counting_decoder_def example_config_def)
qed

section \<open>Encoding, then decoding\<close>

text \<open>
  C7.  Encoding \<open>m * n\<close> zero samples, \<open>n\<close> the number of samples per packet on both
  sides, with an engine that encodes every window, and decoding the features with a
  decoder that decodes every packet into \<open>n\<close> samples, gives \<open>m * n\<close> samples.
\<close>

theorem zero_buffer_round_trip:
  assumes create: "LyraEncoder_Create enc_api sample_rate_hz num_channels (kBitrate cfg)
                     enable_dtx model_path = Some encoder"
    and enc_spp: "EncodeWav_num_samples_per_packet cfg sample_rate_hz
                    (LyraEncoder_frame_rate enc_api encoder) = Inr (int n)"
    and n: "0 < n"
    and processed: "length (EncodeWav_processed_data Process (replicate (m * n) 0)
                      sample_rate_hz enable_preprocessing) = m * n"
    and enc_range: "int (m * n + n) \<le> INT_MAX"
    and enc_succeeds: "encoder_always_succeeds enc_api n"
    and enc_sized: "encoder_packets_sized cfg enc_api"
    and width: "kNumFeatures cfg = int K" and K: "0 < K"
    and dec_spp: "DecodeFeatures_num_samples_per_packet cfg
                    (LyraDecoder_sample_rate_hz dec_api decoder) = Inr (int n)"
    and dec_range: "int (m * K) \<le> INT_MAX"
    and dec_succeeds: "decoder_always_succeeds dec_api K (int n)"
    and dec_sized: "decoder_samples_sized dec_api (int n)"
  shows "\<exists>features decoded decoder'.
      EncodeWav cfg enc_api Process (replicate (m * n) 0) num_channels sample_rate_hz
        enable_preprocessing enable_dtx model_path [] =
        ([EngineCreate], Some (Inr (True, features))) \<and>
      DecodeFeatures cfg dec_api features packet_loss_rate average_burst_length decoder [] =
        Some (Inr (True, decoded, decoder')) \<and>
      length decoded = m * n"
proof -
  let ?xs = "EncodeWav_processed_data Process (replicate (m * n) 0) sample_rate_hz
               enable_preprocessing"
  let ?S = "LyraDecoder_SetEncodedFeatures dec_api"
  let ?D = "LyraDecoder_DecodeSamples dec_api"
  have len: "length ?xs = m * n + 0" using processed by simp
  from EncodeWav_loop_success[OF len n enc_range enc_succeeds, of encoder "[]"]
  obtain features encoder' where
    run: "encode_windows (LyraEncoder_EncodeRaw enc_api) encoder (strides n 0 m ?xs) =
            (True, features, encoder')" and
    loop: "EncodeWav_loop (LyraEncoder_EncodeRaw enc_api) (int n) ?xs 0 encoder [] =
             Some (Inr (True, [] @ features, encoder'))"
    by blast
  have encoded: "EncodeWav cfg enc_api Process (replicate (m * n) 0) num_channels
      sample_rate_hz enable_preprocessing enable_dtx model_path [] =
      ([EngineCreate], Some (Inr (True, features)))"
    using EncodeWav_unfold[OF create enc_spp loop] by simp
  have "int (length features) = int (length (strides n 0 m ?xs)) * kNumFeatures cfg"
    using enc_sized run by (rule encode_windows_length)
  then have "int (length features) = int (m * K)" by (simp add: width)
  then have flen: "length features = m * K" by (simp only: of_nat_eq_iff)
  have frange: "int (length features) \<le> INT_MAX" using dec_range by (simp only: flen)
  from DecodeFeatures_loop_success[OF flen K frange dec_succeeds, of decoder "[]"]
  obtain decoded decoder' where
    drun: "decode_packets ?S ?D (int n) decoder (strides K 0 m features) =
             (True, decoded, decoder')" and
    dloop: "DecodeFeatures_loop (int K) ?S ?D (int n) features 0 decoder [] =
              Some (Inr (True, [] @ decoded, decoder'))"
    by blast
  have decoded: "DecodeFeatures cfg dec_api features packet_loss_rate average_burst_length
      decoder [] = Some (Inr (True, decoded, decoder'))"
    unfolding DecodeFeatures_unfold[OF dec_spp] width using dloop by simp
  have "int (length decoded) = int (length (strides K 0 m features)) * int n"
    using dec_sized drun by (rule decode_packets_length)
  then have "int (length decoded) = int (m * n)" by simp
  then have "length decoded = m * n" by (simp only: of_nat_eq_iff)
  with encoded decoded show ?thesis by blast
qed

theorem zero_buffer_round_trip_witness:
  "LyraEncoder_Create (counting_encoder None) 150 1 (kBitrate example_config) False ''model''
     = Some 0 \<and>
   EncodeWav_num_samples_per_packet example_config 150
     (LyraEncoder_frame_rate (counting_encoder None) 0) = Inr (int 3) \<and>
   (0::nat) < 3 \<and>
   length (EncodeWav_processed_data no_preprocessing (replicate (2 * 3) 0) 150 False)
     = 2 * 3 \<and>
   int (2 * 3 + 3) \<le> INT_MAX \<and>
   encoder_always_succeeds (counting_encoder None) 3 \<and>
   encoder_packets_sized example_config (counting_encoder None) \<and>
   kNumFeatures example_config = int 2 \<and> (0::nat) < 2 \<and>
   DecodeFeatures_num_samples_per_packet example_config
     (LyraDecoder_sample_rate_hz (counting_decoder None None) 0) = Inr (int 3) \<and>
   int (2 * 2) \<le> INT_MAX \<and>
   decoder_always_succeeds (counting_decoder None None) 2 (int 3) \<and>
   decoder_samples_sized (counting_decoder None None) (int 3) \<and>
   (\<exists>features decoded decoder'.
      EncodeWav example_config (counting_encoder None) no_preprocessing
        (replicate (2 * 3) 0) 1 150 False False ''model'' [] =
        ([EngineCreate], Some (Inr (True, features))) \<and>
      DecodeFeatures example_config (counting_decoder None None) features (0::int) (0::int)
        0 [] = Some (Inr (True, decoded, decoder')) \<and>
      length decoded = 2 * 3)"
proof -
  have h1: "LyraEncoder_Create (counting_encoder None) 150 1 (kBitrate example_config) False
              ''model'' = Some 0"
    by (simp add: counting_encoder_def)
  have h2: "EncodeWav_num_samples_per_packet example_config 150
              (LyraEncoder_frame_rate (counting_encoder None) 0) = Inr (int 3)"
    using example_sizes(1) by (simp add: counting_encoder_def)
  have h3: "(0::nat) < 3" by simp
  have h4: "length (EncodeWav_processed_data no_preprocessing (replicate (2 * 3) 0) 150 False)
              = 2 * 3"
    by (simp add: EncodeWav_processed_data_def)
  have h5: "int (2 * 3 + 3) \<le> INT_MAX" by (simp add: INT_MAX_def)
  note h6 = counting_encoder_contract(1)[of 3]
  note h7 = counting_encoder_contract(2)[of None]
  have h8: "kNumFeatures example_config = int 2" by (simp add: example_config_def)
  have h9: "(0::nat) < 2" by simp
  have h10: "DecodeFeatures_num_samples_per_packet example_config
               (LyraDecoder_sample_rate_hz (counting_decoder None None) 0) = Inr (int 3)"
    using example_sizes(2) by (simp add: counting_decoder_def)
  have h11: "int (2 * 2) \<le> INT_MAX" by (simp add: INT_MAX_def)
  note h12 = counting_decoder_contract(1)[of 2 "int 3"]
  have h13: "decoder_samples_sized (counting_decoder None None) (int 3)"
    by (rule counting_decoder_contract(2)) simp
  note zero_buffer_round_trip[OF h1 h2 h3 h4 h5 h6 h7 h8 h9 h10 h11 h12 h13,
    where packet_loss_rate = "0::int" and average_burst_length = "0::int"]
  with h1 h2 h3 h4 h5 h6 h7 h8 h9 h10 h11 h12 h13 show ?thesis by blast
qed

section \<open>The file-level claims\<close>

text \<open>
  C8, as the code has it.  \<open>DecodeFile\<close> constructs the decoder first, before any
  container operation, and a failed construction makes it return \<open>false\<close> with no
  container operation.  \<open>EncodeFile\<close> reads the audio container first; the encoder is
  constructed inside \<open>EncodeWav\<close>, from the sample rate and channel count just read,
  so only after a successful read, and a failed construction makes \<open>EncodeFile\<close> return
  \<open>false\<close> without saving features.
\<close>

theorem engine_construction_and_container_io:
  "(\<exists>rest. fst (DecodeFile cfg dec_api io encoded_path output_path sample_rate_hz
                  packet_loss_rate average_burst_length model_path) = EngineCreate # rest) \<and>
   (LyraDecoder_Create dec_api sample_rate_hz (kNumChannels cfg) (kBitrate cfg) model_path
      = None \<longrightarrow>
    DecodeFile cfg dec_api io encoded_path output_path sample_rate_hz packet_loss_rate
      average_burst_length model_path = ([EngineCreate], Some (Inr False))) \<and>
   (\<exists>rest. fst (EncodeFile cfg enc_api Process io' wav_path output_path'
                  enable_preprocessing enable_dtx model_path') = AudioRead # rest) \<and>
   (Read16BitWavFileToVector io' wav_path = Inl status \<longrightarrow>
    EncodeFile cfg enc_api Process io' wav_path output_path' enable_preprocessing enable_dtx
      model_path' = ([AudioRead], Some (Inr False))) \<and>
   (Read16BitWavFileToVector io' wav_path = Inr read_wav_result \<and>
    LyraEncoder_Create enc_api (ReadWavResult_sample_rate_hz read_wav_result)
      (ReadWavResult_num_channels read_wav_result) (kBitrate cfg) enable_dtx model_path'
      = None \<longrightarrow>
    EncodeFile cfg enc_api Process io' wav_path output_path' enable_preprocessing enable_dtx
      model_path' = ([AudioRead, EngineCreate], Some (Inr False)))"
proof (intro conjI impI)
  show "\<exists>rest. fst (DecodeFile cfg dec_api io encoded_path output_path sample_rate_hz
                  packet_loss_rate average_burst_length model_path) = EngineCreate # rest"
    by (simp add: DecodeFile_def split: option.splits sum.splits prod.splits bool.splits)
next
  assume "LyraDecoder_Create dec_api sample_rate_hz (kNumChannels cfg) (kBitrate cfg)
            model_path = None"
  then show "DecodeFile cfg dec_api io encoded_path output_path sample_rate_hz
      packet_loss_rate average_burst_length model_path = ([EngineCreate], Some (Inr False))"
    by (simp add: DecodeFile_def)
next
  show "\<exists>rest. fst (EncodeFile cfg enc_api Process io' wav_path output_path'
                  enable_preprocessing enable_dtx model_path') = AudioRead # rest"
    by (simp add: EncodeFile_def split: option.splits sum.splits prod.splits bool.splits)
next
  assume "Read16BitWavFileToVector io' wav_path = Inl status"
  then show "EncodeFile cfg enc_api Process io' wav_path output_path' enable_preprocessing
      enable_dtx model_path' = ([AudioRead], Some (Inr False))"
    by (simp add: EncodeFile_def)
next
  assume "Read16BitWavFileToVector io' wav_path = Inr read_wav_result \<and>
    LyraEncoder_Create enc_api (ReadWavResult_sample_rate_hz read_wav_result)
      (ReadWavResult_num_channels read_wav_result) (kBitrate cfg) enable_dtx model_path'
      = None"
  then show "EncodeFile cfg enc_api Process io' wav_path output_path' enable_preprocessing
      enable_dtx model_path' = ([AudioRead, EngineCreate], Some (Inr False))"
    by (simp add: EncodeFile_def EncodeWav_def)
qed

theorem engine_construction_and_container_io_witness:
  "LyraDecoder_Create uncreatable_decoder 150 (kNumChannels example_config)
     (kBitrate example_config) ''model'' = None \<and>
   DecodeFile example_config uncreatable_decoder example_io ''in.npz'' ''out.wav'' 150
     (0::int) (0::int) ''model'' = ([EngineCreate], Some (Inr False)) \<and>
   Read16BitWavFileToVector (example_io\<lparr>Read16BitWavFileToVector := (\<lambda>path. Inl ''missing'')\<rparr>)
     ''in.wav'' = Inl ''missing'' \<and>
   EncodeFile example_config uncreatable_encoder no_preprocessing
     (example_io\<lparr>Read16BitWavFileToVector := (\<lambda>path. Inl ''missing'')\<rparr>)
     ''in.wav'' ''out.npz'' False False ''model'' = ([AudioRead], Some (Inr False)) \<and>
   Read16BitWavFileToVector example_io ''in.wav'' =
     Inr \<lparr>ReadWavResult_samples = [1, 2, 3, 4, 5, 6, 7], ReadWavResult_num_channels = 1,
          ReadWavResult_sample_rate_hz = 150\<rparr> \<and>
   LyraEncoder_Create uncreatable_encoder 150 1 (kBitrate example_config) False ''model''
     = None \<and>
   EncodeFile example_config uncreatable_encoder no_preprocessing example_io
     ''in.wav'' ''out.npz'' False False ''model'' =
     ([AudioRead, EngineCreate], Some (Inr False))"
proof -
  let ?r = "\<lparr>ReadWavResult_samples = [1, 2, 3, 4, 5, 6, 7], ReadWavResult_num_channels = 1,
             ReadWavResult_sample_rate_hz = 150\<rparr>"
  let ?noio = "example_io\<lparr>Read16BitWavFileToVector := (\<lambda>path. Inl ''missing'')\<rparr>"
  have h1: "LyraDecoder_Create uncreatable_decoder 150 (kNumChannels example_config)
              (kBitrate example_config) ''model'' = None"
    by (simp add: uncreatable_decoder_def)
  have h2: "Read16BitWavFileToVector ?noio ''in.wav'' = Inl ''missing''"
    by simp
  have h3: "Read16BitWavFileToVector example_io ''in.wav'' = Inr ?r"
    by (simp add: example_io_def)
  have h4: "LyraEncoder_Create uncreatable_encoder 150 1 (kBitrate example_config) False
              ''model'' = None"
    by (simp add: uncreatable_encoder_def)
  have h4': "LyraEncoder_Create uncreatable_encoder (ReadWavResult_sample_rate_hz ?r)
               (ReadWavResult_num_channels ?r) (kBitrate example_config) False ''model''
               = None"
    by (simp add: uncreatable_encoder_def)
  have d: "DecodeFile example_config uncreatable_decoder example_io ''in.npz'' ''out.wav''
      150 (0::int) (0::int) ''model'' = ([EngineCreate], Some (Inr False))"
    using engine_construction_and_container_io[of example_config uncreatable_decoder
            example_io "''in.npz''" "''out.wav''" 150 "0::int" "0::int" "''model''"
            uncreatable_encoder no_preprocessing ?noio "''in.wav''" "''out.npz''" False False
            "''model''" "''missing''" ?r] h1
    by blast
  have e1: "EncodeFile example_config uncreatable_encoder no_preprocessing ?noio
      ''in.wav'' ''out.npz'' False False ''model'' = ([AudioRead], Some (Inr False))"
    using engine_construction_and_container_io[of example_config uncreatable_decoder
            example_io "''in.npz''" "''out.wav''" 150 "0::int" "0::int" "''model''"
            uncreatable_encoder no_preprocessing ?noio "''in.wav''" "''out.npz''" False False
            "''model''" "''missing''" ?r] h2
    by blast
  have e2: "EncodeFile example_config uncreatable_encoder no_preprocessing example_io
      ''in.wav'' ''out.npz'' False False ''model'' =
      ([AudioRead, EngineCreate], Some (Inr False))"
    using engine_construction_and_container_io[of example_config uncreatable_decoder
            example_io "''in.npz''" "''out.wav''" 150 "0::int" "0::int" "''model''"
            uncreatable_encoder no_preprocessing example_io "''in.wav''" "''out.npz''" False
            False "''model''" "''missing''" ?r] h3 h4'
    by blast
  from h1 d h2 e1 h3 h4 e2 show ?thesis by blast
qed

text \<open>
  C8 as stated fails in the encode direction: when the encoder cannot be
  constructed, \<open>EncodeFile\<close> has already read the audio container.
\<close>

theorem EncodeFile_reads_before_construction:
  "LyraEncoder_Create uncreatable_encoder 150 1 (kBitrate example_config) False ''model''
     = None \<and>
   EncodeFile example_config uncreatable_encoder no_preprocessing example_io
     ''in.wav'' ''out.npz'' False False ''model'' =
     ([AudioRead, EngineCreate], Some (Inr False))"
  by (simp add: EncodeFile_def EncodeWav_def example_io_def uncreatable_encoder_def)

section \<open>The frame-sizing claims\<close>

text \<open>
  C5, as the code has it.  \<open>PacketSize\<close> computes in single precision, on a bit rate
  \<open>B\<close>, a frame rate \<open>F\<close> and a number \<open>K\<close> of frames per packet that are values of
  \<^verbatim>\<open>int\<close>.  With \<open>F\<close> other than zero and \<open>B\<close> below \<open>2 ^ 24\<close> in absolute value, the
  result is the ceiling of \<open>B * K / (F * 8)\<close> in two cases.  With one frame per
  packet, whatever the frame rate: the quotient \<open>B / F\<close> is rounded, but an integer
  lies at least \<open>1 / \<bar>F\<bar>\<close> from a quotient that is not one, further than rounding
  moves it.  With any number of frames per packet, when the frame rate divides the
  bit rate and the bits per packet are below \<open>2 ^ 24\<close> in absolute value: every
  intermediate value is exact.
\<close>

theorem PacketSize_exact:
  assumes B: "LyraDecoder_bitrate api decoder = B"
    and F: "LyraDecoder_frame_rate api decoder = F"
    and K: "kNumFramesPerPacket cfg = K"
    and F0: "F \<noteq> 0"
    and range: "\<bar>B\<bar> < 2 ^ 24" "\<bar>F\<bar> \<le> 2 ^ 31" "\<bar>K\<bar> \<le> 2 ^ 31"
    and exact: "K = 1 \<or> F dvd B \<and> \<bar>B div F * K\<bar> < 2 ^ 24"
  shows "PacketSize cfg api decoder = Inr \<lceil>(of_int (B * K) :: rat) / of_int (F * 8)\<rceil>"
proof -
  define y :: rat where "y = of_int (B * K) / of_int (F * 8)"
  have "\<exists>v. PacketSize_bytes_per_packet cfg api decoder = Finite v \<and> \<lceil>v\<rceil> = \<lceil>y\<rceil>"
  proof (cases "B = 0")
    case True
    have "PacketSize_bytes_per_packet cfg api decoder = Finite 0"
      using B F K F0 range(2,3) True by (intro PacketSize_bytes_per_packet_zero) simp_all
    moreover have "y = 0" unfolding y_def True by simp
    ultimately show ?thesis by simp
  next
    case B0: False
    show ?thesis
    proof (cases "K = 1")
      case True
      have "y = of_int B / (of_int F * 8)" unfolding y_def True by simp
      then show ?thesis
        using PacketSize_bytes_per_packet_one_frame[OF B F K[unfolded True] B0 range(1) F0 range(2)]
        by (simp only:)
    next
      case False
      then have dvd: "F dvd B" and bits: "\<bar>B div F * K\<bar> < 2 ^ 24" using exact by simp_all
      have yq: "y = of_int (B div F * K) / 8"
        unfolding y_def using F0 dvd by (rule exact_bytes_divides)
      have "PacketSize_bytes_per_packet cfg api decoder = Finite y"
        using PacketSize_bytes_per_packet_divides[OF B F K B0 range(1) F0 dvd bits]
        unfolding yq .
      then show ?thesis by blast
    qed
  qed
  then obtain v where
    v: "PacketSize_bytes_per_packet cfg api decoder = Finite v" and c: "\<lceil>v\<rceil> = \<lceil>y\<rceil>"
    by blast
  have "\<bar>y\<bar> \<le> 2 ^ 24"
  proof (cases "K = 1")
    case True
    have "\<bar>B\<bar> \<le> 2 ^ 24" using range(1) by simp
    then have "(of_int \<bar>B\<bar> :: rat) \<le> of_int (2 ^ 24)" by (simp only: of_int_le_iff)
    then have b: "\<bar>of_int B :: rat\<bar> \<le> 2 ^ 24" by simp
    have "1 \<le> \<bar>F * 8\<bar>" using F0 by (simp add: abs_mult)
    then have "(of_int 1 :: rat) \<le> of_int \<bar>F * 8\<bar>" by (simp only: of_int_le_iff)
    then have f: "(1::rat) \<le> \<bar>of_int (F * 8)\<bar>" by (simp only: of_int_abs of_int_1)
    have "\<bar>of_int B :: rat\<bar> / \<bar>of_int (F * 8)\<bar> \<le> \<bar>of_int B\<bar> / 1"
      using f by (intro frac_le) simp_all
    then show ?thesis unfolding y_def True using b by (simp del: of_int_mult)
  next
    case False
    then have dvd: "F dvd B" and bits: "\<bar>B div F * K\<bar> < 2 ^ 24" using exact by simp_all
    have y: "y = of_int (B div F * K) / 8" unfolding y_def using F0 dvd by (rule exact_bytes_divides)
    have "\<bar>B div F * K\<bar> \<le> 2 ^ 24" using bits by simp
    then have "(of_int \<bar>B div F * K\<bar> :: rat) \<le> of_int (2 ^ 24)"
      by (simp only: of_int_le_iff)
    then have "\<bar>of_int (B div F * K) :: rat\<bar> \<le> 2 ^ 24" by (simp del: of_int_mult)
    then show ?thesis unfolding y by (simp del: of_int_mult)
  qed
  then have "- (2 ^ 24) \<le> y" "y \<le> 2 ^ 24" by (simp_all add: abs_le_iff)
  then have cr: "- (2 ^ 24) \<le> \<lceil>y\<rceil>" "\<lceil>y\<rceil> \<le> 2 ^ 24"
    by (simp_all add: ceiling_le_iff le_ceiling_iff)
  have "float_to_int (Finite (of_int \<lceil>y\<rceil>)) = Inr \<lceil>y\<rceil>"
    using cr by (simp add: INT_MIN_def INT_MAX_def)
  then show ?thesis
    unfolding PacketSize_def v y_def[symmetric] by (simp add: c)
qed

theorem PacketSize_exact_witness:
  "(LyraDecoder_bitrate (rated_decoder 3000 50) 0 = 3000 \<and>
    LyraDecoder_frame_rate (rated_decoder 3000 50) 0 = 50 \<and>
    kNumFramesPerPacket example_config = 1 \<and>
    (50::int) \<noteq> 0 \<and> \<bar>3000::int\<bar> < 2 ^ 24 \<and> \<bar>50::int\<bar> \<le> 2 ^ 31 \<and> \<bar>1::int\<bar> \<le> 2 ^ 31 \<and>
    PacketSize example_config (rated_decoder 3000 50) 0 = Inr 8) \<and>
   (LyraDecoder_bitrate (rated_decoder 3000 7) 0 = 3000 \<and>
    LyraDecoder_frame_rate (rated_decoder 3000 7) 0 = 7 \<and>
    (7::int) \<noteq> 0 \<and> \<not> (7::int) dvd 3000 \<and> \<bar>7::int\<bar> \<le> 2 ^ 31 \<and>
    PacketSize example_config (rated_decoder 3000 7) 0 = Inr 54) \<and>
   (kNumFramesPerPacket (example_config\<lparr>kNumFramesPerPacket := 3\<rparr>) = 3 \<and>
    (3::int) \<noteq> 1 \<and> (50::int) dvd 3000 \<and> \<bar>3000 div 50 * (3::int)\<bar> < 2 ^ 24 \<and>
    \<bar>3::int\<bar> \<le> 2 ^ 31 \<and>
    PacketSize (example_config\<lparr>kNumFramesPerPacket := 3\<rparr>) (rated_decoder 3000 50) 0 = Inr 23)"
proof -
  have b: "LyraDecoder_bitrate (rated_decoder 3000 50) 0 = 3000"
    "LyraDecoder_bitrate (rated_decoder 3000 7) 0 = 3000"
    by (simp_all add: rated_decoder_def)
  have f: "LyraDecoder_frame_rate (rated_decoder 3000 50) 0 = 50"
    "LyraDecoder_frame_rate (rated_decoder 3000 7) 0 = 7"
    by (simp_all add: rated_decoder_def)
  have k: "kNumFramesPerPacket example_config = 1"
    "kNumFramesPerPacket (example_config\<lparr>kNumFramesPerPacket := 3\<rparr>) = 3"
    by (simp_all add: example_config_def)
  have f0: "(50::int) \<noteq> 0" "(7::int) \<noteq> 0" by simp_all
  have bs: "\<bar>3000::int\<bar> < 2 ^ 24" by simp
  have fs: "\<bar>50::int\<bar> \<le> 2 ^ 31" "\<bar>7::int\<bar> \<le> 2 ^ 31" by simp_all
  have ks: "\<bar>1::int\<bar> \<le> 2 ^ 31" "\<bar>3::int\<bar> \<le> 2 ^ 31" by simp_all
  have one: "(1::int) = 1 \<or> (50::int) dvd 3000 \<and> \<bar>3000 div 50 * (1::int)\<bar> < 2 ^ 24"
    "(1::int) = 1 \<or> (7::int) dvd 3000 \<and> \<bar>3000 div 7 * (1::int)\<bar> < 2 ^ 24"
    by simp_all
  have dv: "(50::int) dvd 3000" "\<bar>3000 div 50 * (3::int)\<bar> < 2 ^ 24" "\<not> (7::int) dvd 3000"
    by simp_all
  then have three: "(3::int) = 1 \<or> (50::int) dvd 3000 \<and> \<bar>3000 div 50 * (3::int)\<bar> < 2 ^ 24"
    by simp
  have c: "\<lceil>(of_int (3000 * 1) :: rat) / of_int (50 * 8)\<rceil> = 8"
    "\<lceil>(of_int (3000 * 1) :: rat) / of_int (7 * 8)\<rceil> = 54"
    "\<lceil>(of_int (3000 * 3) :: rat) / of_int (50 * 8)\<rceil> = 23"
    by code_simp+
  have r1: "PacketSize example_config (rated_decoder 3000 50) 0 = Inr 8"
    using PacketSize_exact[OF b(1) f(1) k(1) f0(1) bs fs(1) ks(1) one(1)] unfolding c .
  have r2: "PacketSize example_config (rated_decoder 3000 7) 0 = Inr 54"
    using PacketSize_exact[OF b(2) f(2) k(1) f0(2) bs fs(2) ks(1) one(2)] unfolding c .
  have r3: "PacketSize (example_config\<lparr>kNumFramesPerPacket := 3\<rparr>) (rated_decoder 3000 50) 0
      = Inr 23"
    using PacketSize_exact[OF b(1) f(1) k(2) f0(1) bs fs(1) ks(2) three] unfolding c .
  have "(3::int) \<noteq> 1" by simp
  with b f k f0 bs fs ks dv r1 r2 r3 show ?thesis by blast
qed

text \<open>
  C5 as stated fails where single precision rounds.  The bit rate \<open>2 ^ 24 + 1\<close>
  becomes \<open>2 ^ 24\<close> when it is converted to \<open>float\<close>, so with frame rate 1 and one
  frame per packet \<open>PacketSize\<close> gives 2097152, and the ceiling of \<open>16777217 / 8\<close> is
  2097153.  With bit rate 456, frame rate 7 and 7 frames per packet the quotient
  \<open>456 / 7\<close> is rounded up, its product with 7 lies above 456, and \<open>PacketSize\<close> gives
  58 where the ceiling of \<open>456 * 7 / (7 * 8)\<close> is 57.  With bit rate 24929, frame
  rate 1 and 673 frames per packet the bits per packet are \<open>2 ^ 24 + 1\<close>, which the
  product rounds to \<open>2 ^ 24\<close>, and \<open>PacketSize\<close> gives 2097152 again.
\<close>

theorem PacketSize_rounds:
  "(PacketSize example_config (rated_decoder 16777217 1) 0 = Inr 2097152 \<and>
    \<lceil>(of_int (16777217 * 1) :: rat) / of_int (1 * 8)\<rceil> = 2097153) \<and>
   (PacketSize (example_config\<lparr>kNumFramesPerPacket := 7\<rparr>) (rated_decoder 456 7) 0 = Inr 58 \<and>
    \<lceil>(of_int (456 * 7) :: rat) / of_int (7 * 8)\<rceil> = 57) \<and>
   (PacketSize (example_config\<lparr>kNumFramesPerPacket := 673\<rparr>) (rated_decoder 24929 1) 0
      = Inr 2097152 \<and>
    \<lceil>(of_int (24929 * 673) :: rat) / of_int (1 * 8)\<rceil> = 2097153)"
  by code_simp

text \<open>
  C6, as the code has it.  With a frame rate other than zero, the number of samples
  per packet is the quotient of \<open>kNumFramesPerPacket * sample_rate_hz\<close> by the frame
  rate, truncated towards zero, when the product is in the range of \<open>int\<close> and the
  division is not \<open>INT_MIN / - 1\<close>; and the number of bytes per packet that \<open>PacketSize\<close>
  computes from values in the range of \<open>int\<close> is finite, and \<open>PacketSize\<close> returns its
  ceiling when that is in the range of \<open>int\<close>.
\<close>

theorem frame_sizing_with_nonzero_frame_rate:
  "(frame_rate \<noteq> 0 \<and>
    int_mul (kNumFramesPerPacket cfg) sample_rate_hz = Inr product \<and>
    \<not> (product = INT_MIN \<and> frame_rate = - 1) \<longrightarrow>
      EncodeWav_num_samples_per_packet cfg sample_rate_hz frame_rate =
        Inr (sgn product * sgn frame_rate * (\<bar>product\<bar> div \<bar>frame_rate\<bar>))) \<and>
   (LyraDecoder_frame_rate api decoder \<noteq> 0 \<and>
    \<bar>LyraDecoder_bitrate api decoder\<bar> \<le> 2 ^ 31 \<and>
    \<bar>LyraDecoder_frame_rate api decoder\<bar> \<le> 2 ^ 31 \<and>
    \<bar>kNumFramesPerPacket cfg\<bar> \<le> 2 ^ 31 \<longrightarrow>
      (\<exists>v. PacketSize_bytes_per_packet cfg api decoder = Finite v \<and>
           PacketSize cfg api decoder =
             (if INT_MIN \<le> \<lceil>v\<rceil> \<and> \<lceil>v\<rceil> \<le> INT_MAX then Inr \<lceil>v\<rceil>
              else Inl FloatToIntOutOfRange)))"
proof (intro conjI impI)
  assume "frame_rate \<noteq> 0 \<and>
    int_mul (kNumFramesPerPacket cfg) sample_rate_hz = Inr product \<and>
    \<not> (product = INT_MIN \<and> frame_rate = - 1)"
  then show "EncodeWav_num_samples_per_packet cfg sample_rate_hz frame_rate =
      Inr (sgn product * sgn frame_rate * (\<bar>product\<bar> div \<bar>frame_rate\<bar>))"
    by (auto simp: EncodeWav_num_samples_per_packet_def int_div_def)
next
  assume a: "LyraDecoder_frame_rate api decoder \<noteq> 0 \<and>
    \<bar>LyraDecoder_bitrate api decoder\<bar> \<le> 2 ^ 31 \<and>
    \<bar>LyraDecoder_frame_rate api decoder\<bar> \<le> 2 ^ 31 \<and>
    \<bar>kNumFramesPerPacket cfg\<bar> \<le> 2 ^ 31"
  then obtain v where v: "PacketSize_bytes_per_packet cfg api decoder = Finite v"
    using PacketSize_bytes_per_packet_finite[of api decoder cfg] by blast
  have "PacketSize cfg api decoder =
      (if INT_MIN \<le> \<lceil>v\<rceil> \<and> \<lceil>v\<rceil> \<le> INT_MAX then Inr \<lceil>v\<rceil>
       else Inl FloatToIntOutOfRange)"
    unfolding PacketSize_def v by (simp add: Let_def)
  with v show "\<exists>v. PacketSize_bytes_per_packet cfg api decoder = Finite v \<and>
      PacketSize cfg api decoder =
        (if INT_MIN \<le> \<lceil>v\<rceil> \<and> \<lceil>v\<rceil> \<le> INT_MAX then Inr \<lceil>v\<rceil>
         else Inl FloatToIntOutOfRange)"
    by blast
qed

theorem frame_sizing_with_nonzero_frame_rate_witness:
  "(50::int) \<noteq> 0 \<and>
   int_mul (kNumFramesPerPacket example_config) 16000 = Inr 16000 \<and>
   \<not> ((16000::int) = INT_MIN \<and> (50::int) = - 1) \<and>
   EncodeWav_num_samples_per_packet example_config 16000 50 = Inr 320 \<and>
   LyraDecoder_frame_rate (rated_decoder 3000 50) 0 \<noteq> 0 \<and>
   \<bar>LyraDecoder_bitrate (rated_decoder 3000 50) 0\<bar> \<le> 2 ^ 31 \<and>
   \<bar>LyraDecoder_frame_rate (rated_decoder 3000 50) 0\<bar> \<le> 2 ^ 31 \<and>
   \<bar>kNumFramesPerPacket example_config\<bar> \<le> 2 ^ 31 \<and>
   PacketSize_bytes_per_packet example_config (rated_decoder 3000 50) 0 = Finite (15 / 2) \<and>
   PacketSize example_config (rated_decoder 3000 50) 0 = Inr 8"
proof -
  have h1: "(50::int) \<noteq> 0" by simp
  have h2: "int_mul (kNumFramesPerPacket example_config) 16000 = Inr 16000"
    by (simp add: int_mul_def example_config_def INT_MIN_def INT_MAX_def)
  have h3: "\<not> ((16000::int) = INT_MIN \<and> (50::int) = - 1)" by simp
  have h4: "LyraDecoder_frame_rate (rated_decoder 3000 50) 0 \<noteq> 0"
    by (simp add: rated_decoder_def)
  have h5: "\<bar>LyraDecoder_bitrate (rated_decoder 3000 50) 0\<bar> \<le> 2 ^ 31"
    by (simp add: rated_decoder_def)
  have h6: "\<bar>LyraDecoder_frame_rate (rated_decoder 3000 50) 0\<bar> \<le> 2 ^ 31"
    by (simp add: rated_decoder_def)
  have h7: "\<bar>kNumFramesPerPacket example_config\<bar> \<le> 2 ^ 31"
    by (simp add: example_config_def)
  have bytes: "PacketSize_bytes_per_packet example_config (rated_decoder 3000 50) 0 =
      Finite (15 / 2)"
    by code_simp
  have c: "\<lceil>15 / 2 :: rat\<rceil> = 8" by code_simp
  note inst = frame_sizing_with_nonzero_frame_rate[of 50 example_config 16000 16000
      "rated_decoder 3000 50" 0]
  have spp: "EncodeWav_num_samples_per_packet example_config 16000 50 = Inr 320"
    using inst h1 h2 h3 by simp
  from inst h4 h5 h6 h7 obtain v where
    v: "PacketSize_bytes_per_packet example_config (rated_decoder 3000 50) 0 = Finite v" and
    size: "PacketSize example_config (rated_decoder 3000 50) 0 =
      (if INT_MIN \<le> \<lceil>v\<rceil> \<and> \<lceil>v\<rceil> \<le> INT_MAX then Inr \<lceil>v\<rceil>
       else Inl FloatToIntOutOfRange)"
    by blast
  have "Finite v = Finite (15 / 2)" using v bytes by (simp only:)
  then have "v = 15 / 2" by (simp only: float.inject)
  then have "PacketSize example_config (rated_decoder 3000 50) 0 = Inr 8"
    using size by (simp only: c) (simp add: INT_MIN_def INT_MAX_def)
  with h1 h2 h3 spp h4 h5 h6 h7 bytes show ?thesis by blast
qed

text \<open>
  C6 as stated fails at frame rate zero: there is no check.  \<open>EncodeWav\<close> divides by
  zero on \<open>int\<close>; \<open>PacketSize\<close> divides by zero on \<open>float\<close>, which gives infinity, and
  converts that to \<open>int\<close>.
\<close>

theorem frame_rate_zero_is_not_checked:
  "EncodeWav_num_samples_per_packet example_config 16000 0 = Inl DivisionByZero \<and>
   EncodeWav example_config zero_rate_encoder no_preprocessing [1, 2, 3, 4, 5, 6, 7] 1 16000
     False False ''model'' [] = ([EngineCreate], Some (Inl DivisionByZero)) \<and>
   PacketSize_bytes_per_packet example_config (rated_decoder 3000 0) 0 = Infinity \<and>
   PacketSize example_config (rated_decoder 3000 0) 0 = Inl FloatToIntOutOfRange"
proof -
  have spp: "EncodeWav_num_samples_per_packet example_config 16000 0 = Inl DivisionByZero"
    by (simp add: EncodeWav_num_samples_per_packet_def int_mul_def int_div_def
          example_config_def INT_MIN_def INT_MAX_def)
  have enc: "EncodeWav example_config zero_rate_encoder no_preprocessing
      [1, 2, 3, 4, 5, 6, 7] 1 16000 False False ''model'' [] =
      ([EngineCreate], Some (Inl DivisionByZero))"
    using spp by (simp add: EncodeWav_def zero_rate_encoder_def counting_encoder_def)
  have bytes: "PacketSize_bytes_per_packet example_config (rated_decoder 3000 0) 0 = Infinity"
    by code_simp
  have "PacketSize example_config (rated_decoder 3000 0) 0 = Inl FloatToIntOutOfRange"
    unfolding PacketSize_def bytes by simp
  with spp enc bytes show ?thesis by blast
qed

end
